theory Spec2Isabelle
  imports Complex_Main "HOL-Library.Char_ord" "HOL-Library.List_Lexorder" "HOL-Library.Sublist" "HOL-Library.Multiset"
begin

section \<open>Conventions of the embedding\<close>

text \<open>
  The retrieval tools (\<^verbatim>\<open>deep_research/tools/retrieval_tools.py\<close>) and the
  research controller (\<^verbatim>\<open>deep_research/nodes/research_nodes.py\<close>,
  \<^verbatim>\<open>deep_research/workflows/research_workflow.py\<close>) are embedded as HOL functions.

  \<^item> Python \<^verbatim>\<open>float\<close> values are modelled as \<^typ>\<open>real\<close>, \<^verbatim>\<open>math.log\<close> as \<^const>\<open>ln\<close>
    and \<^verbatim>\<open>np.linalg.norm\<close> as the square root of the sum of squares: rounding is not modelled.
  \<^item> A Python \<^verbatim>\<open>dict\<close> is an association list in insertion order; assigning to an
    existing key keeps the key's position.
  \<^item> Strings are \<^typ>\<open>string\<close>; the tokenizer is modelled on ASCII text.
  \<^item> The file system is a function from a path to the text read there, \<^const>\<open>None\<close>
    where \<^verbatim>\<open>_read_file\<close> catches an exception.
  \<^item> Exceptions are values of \<open>py_error\<close>, on the left of a sum.
\<close>

datatype py_error = KeyError | ZeroDivisionError | ValueError

type_synonym file_system = "string \<Rightarrow> string option"

subsection \<open>Dictionaries, slices, sorting\<close>

fun dict_set :: "('k \<times> 'v) list \<Rightarrow> 'k \<Rightarrow> 'v \<Rightarrow> ('k \<times> 'v) list" where
  "dict_set [] k v = [(k, v)]"
| "dict_set ((k', v') # d) k v =
     (if k' = k then (k', v) # d else (k', v') # dict_set d k v)"

definition dict_has :: "('k \<times> 'v) list \<Rightarrow> 'k \<Rightarrow> bool" where
  "dict_has d k = (map_of d k \<noteq> None)"

text \<open>\<^verbatim>\<open>d[k]\<close>, which raises \<^verbatim>\<open>KeyError\<close> on a missing key.\<close>

definition dict_get :: "('k \<times> 'v) list \<Rightarrow> 'k \<Rightarrow> py_error + 'v" where
  "dict_get d k = (case map_of d k of None \<Rightarrow> Inl KeyError | Some v \<Rightarrow> Inr v)"

text \<open>\<^verbatim>\<open>xs[:k]\<close> for a Python integer \<open>k\<close>: a negative \<open>k\<close> drops from the end.\<close>

definition py_take :: "int \<Rightarrow> 'a list \<Rightarrow> 'a list" where
  "py_take k xs = (if 0 \<le> k then take (nat k) xs else take (length xs - nat (- k)) xs)"

text \<open>
  \<^verbatim>\<open>sorted(xs, key=f, reverse=True)\<close>: Python's sort is stable and \<^verbatim>\<open>reverse=True\<close> keeps
  the original order of elements with equal keys, which is what the stable insertion sort
  \<^const>\<open>sort_key\<close> does on the negated key.
\<close>

definition sorted_desc :: "('a \<Rightarrow> real) \<Rightarrow> 'a list \<Rightarrow> 'a list" where
  "sorted_desc f xs = sort_key (\<lambda>x. - f x) xs"

text \<open>\<^verbatim>\<open>collections.Counter(xs)\<close>, keys in order of first occurrence.\<close>

definition Counter :: "'a list \<Rightarrow> ('a \<times> nat) list" where
  "Counter xs =
     fold (\<lambda>x c. dict_set c x ((case map_of c x of None \<Rightarrow> 0 | Some n \<Rightarrow> n) + 1)) xs []"

subsection \<open>Tokenizer\<close>

text \<open>
  \<^verbatim>\<open>
  def _tokenize(self, text):
      text = re.sub(r'[^a-zA-Z0-9\s]', ' ', text.lower())
      return [word for word in text.split() if len(word) > 2]
  \<close>
\<close>

definition is_space :: "char \<Rightarrow> bool" where
  "is_space c = (let n = (of_char c :: nat) in (9 \<le> n \<and> n \<le> 13) \<or> (28 \<le> n \<and> n \<le> 32))"

definition is_alnum :: "char \<Rightarrow> bool" where
  "is_alnum c = (let n = (of_char c :: nat) in
     (48 \<le> n \<and> n \<le> 57) \<or> (65 \<le> n \<and> n \<le> 90) \<or> (97 \<le> n \<and> n \<le> 122))"

definition lower_char :: "char \<Rightarrow> char" where
  "lower_char c = (let n = (of_char c :: nat) in
     if 65 \<le> n \<and> n \<le> 90 then char_of (n + 32) else c)"

definition lower :: "string \<Rightarrow> string" where
  "lower s = map lower_char s"

text \<open>\<^verbatim>\<open>str.split()\<close>: split at runs of whitespace, no empty words.\<close>

fun split_acc :: "string \<Rightarrow> string \<Rightarrow> string list" where
  "split_acc cur [] = (if cur = [] then [] else [rev cur])"
| "split_acc cur (c # cs) =
     (if is_space c then (if cur = [] then split_acc [] cs else rev cur # split_acc [] cs)
      else split_acc (c # cur) cs)"

definition split :: "string \<Rightarrow> string list" where
  "split s = split_acc [] s"

definition tokenize :: "string \<Rightarrow> string list" where
  "tokenize text =
     filter (\<lambda>word. length word > 2)
       (split (map (\<lambda>c. if is_alnum c \<or> is_space c then c else CHR '' '') (lower text)))"

subsection \<open>Search results\<close>

datatype meta_value = MFloat real | MInt int | MStr string

record SearchResult =
  source :: string
  content :: string
  relevance_score :: real
  metadata :: "(string \<times> meta_value) list"
  search_query :: string
  tool_used :: string

text \<open>\<^verbatim>\<open>content[:500] + "..." if len(content) > 500 else content\<close>\<close>

definition preview :: "string \<Rightarrow> string" where
  "preview c = (if length c > 500 then take 500 c @ ''...'' else c)"

section \<open>BM25 retrieval\<close>

record BM25RetrievalTool =
  bm25_k1 :: real
  bm25_b :: real
  bm25_documents :: "(string \<times> string list) list"
  doc_lengths :: "(string \<times> nat) list"
  avg_doc_length :: real
  term_frequencies :: "(string \<times> (string \<times> nat) list) list"
  document_frequencies :: "(string \<times> nat) list"
  bm25_vocabulary :: "string set"

text \<open>The constructor, with its defaults \<open>k1 = 1.5\<close> and \<open>b = 0.75\<close> as parameters.\<close>

definition BM25_init :: "real \<Rightarrow> real \<Rightarrow> BM25RetrievalTool" where
  "BM25_init k1' b' =
     \<lparr> bm25_k1 = k1', bm25_b = b', bm25_documents = [], doc_lengths = [], avg_doc_length = 0,
       term_frequencies = [], document_frequencies = [], bm25_vocabulary = {} \<rparr>"

text \<open>First loop of \<^verbatim>\<open>index_documents\<close>: read and tokenise, accumulating the total length.\<close>

definition bm25_read_step :: "file_system \<Rightarrow> string \<Rightarrow> BM25RetrievalTool \<times> nat \<Rightarrow> BM25RetrievalTool \<times> nat" where
  "bm25_read_step fs file_path st =
     (case st of (t, total_length) \<Rightarrow>
        (case fs file_path of
           None \<Rightarrow> (t, total_length)
         | Some c \<Rightarrow>
             if c = [] then (t, total_length)
             else (let tokens = tokenize c in
               (t\<lparr> bm25_documents := dict_set (bm25_documents t) file_path tokens,
                    doc_lengths := dict_set (doc_lengths t) file_path (length tokens),
                    bm25_vocabulary := bm25_vocabulary t \<union> set tokens \<rparr>,
                total_length + length tokens))))"

text \<open>Second loop: one posting and one document-frequency increment per distinct term.\<close>

definition bm25_post_term :: "string \<Rightarrow> string \<times> nat \<Rightarrow> BM25RetrievalTool \<Rightarrow> BM25RetrievalTool" where
  "bm25_post_term doc_id tc t =
     (case tc of (term, freq) \<Rightarrow>
        (let tfs = (if dict_has (term_frequencies t) term then term_frequencies t
                    else dict_set (term_frequencies t) term []);
             row = (case map_of tfs term of None \<Rightarrow> [] | Some r \<Rightarrow> r);
             tfs' = dict_set tfs term (dict_set row doc_id freq);
             dfs = (if dict_has (document_frequencies t) term then document_frequencies t
                    else dict_set (document_frequencies t) term 0);
             n = (case map_of dfs term of None \<Rightarrow> 0 | Some n \<Rightarrow> n);
             dfs' = dict_set dfs term (n + 1)
         in t\<lparr> term_frequencies := tfs', document_frequencies := dfs' \<rparr>))"

definition bm25_post_doc :: "string \<times> string list \<Rightarrow> BM25RetrievalTool \<Rightarrow> BM25RetrievalTool" where
  "bm25_post_doc d t = (case d of (doc_id, tokens) \<Rightarrow> fold (bm25_post_term doc_id) (Counter tokens) t)"

definition bm25_index_documents :: "file_system \<Rightarrow> string list \<Rightarrow> BM25RetrievalTool \<Rightarrow> BM25RetrievalTool" where
  "bm25_index_documents fs file_paths t0 =
     (case fold (bm25_read_step fs) file_paths (t0, 0) of (t1, total_length) \<Rightarrow>
        (let t2 = t1\<lparr> avg_doc_length :=
                       (if bm25_documents t1 \<noteq> [] then real total_length / real (length (bm25_documents t1))
                        else 0) \<rparr>
         in fold bm25_post_doc (bm25_documents t2) t2))"

text \<open>The guard of the scoring loop: the term has a posting for the document.\<close>

definition has_posting :: "BM25RetrievalTool \<Rightarrow> string \<Rightarrow> string \<Rightarrow> bool" where
  "has_posting t term doc_id =
     (case map_of (term_frequencies t) term of None \<Rightarrow> False | Some row \<Rightarrow> dict_has row doc_id)"

text \<open>
  One summand of the BM25 score, for a term that has a posting. The lookups raise
  \<^verbatim>\<open>KeyError\<close>, the divisions \<^verbatim>\<open>ZeroDivisionError\<close> and \<^verbatim>\<open>math.log\<close> raises
  \<^verbatim>\<open>ValueError\<close> outside its domain.
\<close>

definition bm25_term_score :: "BM25RetrievalTool \<Rightarrow> string \<Rightarrow> string \<Rightarrow> py_error + real" where
  "bm25_term_score t term doc_id =
     (case map_of (term_frequencies t) term of None \<Rightarrow> Inl KeyError | Some row \<Rightarrow>
     (case map_of row doc_id of None \<Rightarrow> Inl KeyError | Some tf \<Rightarrow>
     (case map_of (document_frequencies t) term of None \<Rightarrow> Inl KeyError | Some df \<Rightarrow>
        (let x = (real (length (bm25_documents t)) - real df + 0.5) / (real df + 0.5) in
         if x \<le> 0 then Inl ValueError
         else (let idf = ln x; numerator = real tf * (bm25_k1 t + 1) in
          (case map_of (doc_lengths t) doc_id of None \<Rightarrow> Inl KeyError | Some dl \<Rightarrow>
             if avg_doc_length t = 0 then Inl ZeroDivisionError
             else (let denominator =
                     real tf + bm25_k1 t * (1 - bm25_b t + bm25_b t * (real dl / avg_doc_length t))
               in if denominator = 0 then Inl ZeroDivisionError
                  else Inr (idf * (numerator / denominator)))))))))"

fun bm25_score_loop :: "BM25RetrievalTool \<Rightarrow> string \<Rightarrow> string list \<Rightarrow> real \<Rightarrow> py_error + real" where
  "bm25_score_loop t doc_id [] score = Inr score"
| "bm25_score_loop t doc_id (term # terms) score =
     (if has_posting t term doc_id then
        (case bm25_term_score t term doc_id of
           Inl e \<Rightarrow> Inl e
         | Inr s \<Rightarrow> bm25_score_loop t doc_id terms (score + s))
      else bm25_score_loop t doc_id terms score)"

definition bm25_score :: "BM25RetrievalTool \<Rightarrow> string \<Rightarrow> string list \<Rightarrow> py_error + real" where
  "bm25_score t doc_id query_terms = bm25_score_loop t doc_id query_terms 0"

fun bm25_doc_loop :: "BM25RetrievalTool \<Rightarrow> string list \<Rightarrow> string list \<Rightarrow> (string \<times> real) list
    \<Rightarrow> py_error + (string \<times> real) list" where
  "bm25_doc_loop t query_terms [] doc_scores = Inr doc_scores"
| "bm25_doc_loop t query_terms (doc_id # ds) doc_scores =
     (case bm25_score t doc_id query_terms of
        Inl e \<Rightarrow> Inl e
      | Inr score \<Rightarrow>
          bm25_doc_loop t query_terms ds
            (if score > 0 then dict_set doc_scores doc_id score else doc_scores))"

definition bm25_result :: "BM25RetrievalTool \<Rightarrow> string \<Rightarrow> string list \<Rightarrow> string \<Rightarrow> real \<Rightarrow> string \<Rightarrow> SearchResult" where
  "bm25_result t query query_terms doc_id score c =
     \<lparr> source = doc_id, content = preview c, relevance_score = min (score / 10) 1,
       metadata = [(''bm25_score'', MFloat score),
                   (''query_terms_found'',
                      MInt (int (length (filter (\<lambda>term. has_posting t term doc_id) query_terms))))],
       search_query = query, tool_used = ''bm25_retrieval'' \<rparr>"

definition bm25_make_results :: "BM25RetrievalTool \<Rightarrow> file_system \<Rightarrow> string \<Rightarrow> string list \<Rightarrow> (string \<times> real) list \<Rightarrow> SearchResult list" where
  "bm25_make_results t fs query query_terms ranked =
     concat (map (\<lambda>(doc_id, score).
        (case fs doc_id of None \<Rightarrow> []
         | Some c \<Rightarrow> if c = [] then [] else [bm25_result t query query_terms doc_id score c])) ranked)"

definition bm25_search :: "BM25RetrievalTool \<Rightarrow> file_system \<Rightarrow> string \<Rightarrow> int \<Rightarrow> py_error + SearchResult list" where
  "bm25_search t fs query top_k =
     (if bm25_documents t = [] then Inr []
      else (let query_terms = tokenize query in
        case bm25_doc_loop t query_terms (map fst (bm25_documents t)) [] of
          Inl e \<Rightarrow> Inl e
        | Inr doc_scores \<Rightarrow>
            Inr (bm25_make_results t fs query query_terms (py_take top_k (sorted_desc snd doc_scores)))))"

section \<open>Dense retrieval (TF-IDF vectors and cosine similarity)\<close>

text \<open>
  The vocabulary is a Python set; it is kept as a list and read only through
  \<open>remdups\<close> and \<open>sort\<close>, which is what \<^verbatim>\<open>len\<close> and \<^verbatim>\<open>sorted\<close> see of a set.
\<close>

record DenseRetrievalTool =
  dense_documents :: "(string \<times> string) list"
  embeddings :: "(string \<times> real list) list"
  dense_vocabulary :: "string list"
  idf_scores :: "(string \<times> real) list"

definition Dense_init :: DenseRetrievalTool where
  "Dense_init = \<lparr> dense_documents = [], embeddings = [], dense_vocabulary = [], idf_scores = [] \<rparr>"

text \<open>\<^verbatim>\<open>range(0, n, step)\<close> for \<open>n \<ge> 0\<close>: empty for a negative step; a zero step raises.\<close>

definition range_from_0 :: "nat \<Rightarrow> int \<Rightarrow> py_error + nat list" where
  "range_from_0 n step =
     (if step = 0 then Inl ValueError
      else if step < 0 then Inr []
      else Inr (map (\<lambda>j. j * nat step) [0 ..< (n + nat step - 1) div nat step]))"

text \<open>
  \<^verbatim>\<open>
  def _split_into_chunks(self, text, chunk_size):
      chunks = []
      words = text.split()
      for i in range(0, len(words), chunk_size // 10):  # Overlap chunks
          chunk_words = words[i:i + chunk_size // 10]
          chunks.append(' '.join(chunk_words))
      return chunks
  \<close>
  The words of each chunk are kept beside the joined text. For a positive step the slice
  \<^verbatim>\<open>words[i:i + step]\<close> is \<open>take step (drop i words)\<close>.
\<close>

fun join_words :: "string list \<Rightarrow> string" where
  "join_words [] = []"
| "join_words [w] = w"
| "join_words (w # ws) = w @ '' '' @ join_words ws"

definition chunk_words :: "string \<Rightarrow> int \<Rightarrow> py_error + string list list" where
  "chunk_words text chunk_size =
     (let words = split text; step = chunk_size div 10 in
      case range_from_0 (length words) step of
        Inl e \<Rightarrow> Inl e
      | Inr starts \<Rightarrow> Inr (map (\<lambda>i. take (nat step) (drop i words)) starts))"

definition split_into_chunks :: "string \<Rightarrow> int \<Rightarrow> py_error + string list" where
  "split_into_chunks text chunk_size =
     (case chunk_words text chunk_size of Inl e \<Rightarrow> Inl e | Inr cws \<Rightarrow> Inr (map join_words cws))"

text \<open>Decimal digits of a chunk number, for \<^verbatim>\<open>f"{file_path}#chunk_{i}"\<close>.\<close>

fun str_nat :: "nat \<Rightarrow> string" where
  "str_nat n = (if n < 10 then [char_of (48 + n)] else str_nat (n div 10) @ [char_of (48 + n mod 10)])"

definition chunk_path :: "string \<Rightarrow> nat \<Rightarrow> string" where
  "chunk_path file_path i = file_path @ ''#chunk_'' @ str_nat i"

definition vocabulary_update :: "string list \<Rightarrow> string list \<Rightarrow> string list" where
  "vocabulary_update vocab tokens = List.union tokens vocab"

definition dense_add_document :: "string \<Rightarrow> string \<Rightarrow> DenseRetrievalTool \<Rightarrow> DenseRetrievalTool" where
  "dense_add_document path text t =
     t\<lparr> dense_documents := dict_set (dense_documents t) path text,
        dense_vocabulary := vocabulary_update (dense_vocabulary t) (tokenize text) \<rparr>"

definition dense_add_chunks :: "string \<Rightarrow> string list \<Rightarrow> DenseRetrievalTool \<Rightarrow> DenseRetrievalTool" where
  "dense_add_chunks file_path chunks t =
     fold (\<lambda>(i, chunk). dense_add_document (chunk_path file_path i) chunk)
          (zip [0 ..< length chunks] chunks) t"

text \<open>The body of the loop over \<^verbatim>\<open>file_paths\<close> in \<^verbatim>\<open>index_documents\<close>.\<close>

definition dense_read_step :: "file_system \<Rightarrow> int \<Rightarrow> string \<Rightarrow> DenseRetrievalTool \<Rightarrow> py_error + DenseRetrievalTool" where
  "dense_read_step fs chunk_size file_path t =
     (if dict_has (dense_documents t) file_path then Inr t
      else (case fs file_path of
              None \<Rightarrow> Inr t
            | Some c \<Rightarrow>
                if c = [] then Inr t
                else if int (length c) > chunk_size then
                  (case split_into_chunks c chunk_size of
                     Inl e \<Rightarrow> Inl e
                   | Inr chunks \<Rightarrow> Inr (dense_add_chunks file_path chunks t))
                else Inr (dense_add_document file_path c t)))"

fun dense_read_loop :: "file_system \<Rightarrow> int \<Rightarrow> string list \<Rightarrow> DenseRetrievalTool \<Rightarrow> py_error + DenseRetrievalTool" where
  "dense_read_loop fs chunk_size [] t = Inr t"
| "dense_read_loop fs chunk_size (p # ps) t =
     (case dense_read_step fs chunk_size p t of
        Inl e \<Rightarrow> Inl e
      | Inr t' \<Rightarrow> dense_read_loop fs chunk_size ps t')"

text \<open>
  \<^verbatim>\<open>
  def _calculate_idf_scores(self):
      doc_count = len(self.documents)
      ...
      for word in self.vocabulary:
          self.idf_scores[word] = math.log(doc_count / (word_doc_count[word] + 1))
  \<close>
  \<^verbatim>\<open>math.log\<close> raises on \<open>0\<close>, which is what the quotient is when there is no document.
\<close>

definition word_doc_count :: "DenseRetrievalTool \<Rightarrow> string \<Rightarrow> nat" where
  "word_doc_count t word =
     length (filter (\<lambda>(p, text). word \<in> set (tokenize text)) (dense_documents t))"

fun idf_loop :: "DenseRetrievalTool \<Rightarrow> string list \<Rightarrow> (string \<times> real) list \<Rightarrow> py_error + (string \<times> real) list" where
  "idf_loop t [] idf = Inr idf"
| "idf_loop t (word # ws) idf =
     (let x = real (length (dense_documents t)) / (real (word_doc_count t word) + 1) in
      if x \<le> 0 then Inl ValueError
      else idf_loop t ws (dict_set idf word (ln x)))"

definition calculate_idf_scores :: "DenseRetrievalTool \<Rightarrow> py_error + DenseRetrievalTool" where
  "calculate_idf_scores t =
     (case idf_loop t (remdups (dense_vocabulary t)) (idf_scores t) of
        Inl e \<Rightarrow> Inl e
      | Inr idf \<Rightarrow> Inr (t\<lparr> idf_scores := idf \<rparr>))"

text \<open>
  \<^verbatim>\<open>
  def _text_to_vector(self, text):
      words = self._tokenize(text)
      word_count = Counter(words)
      vector = np.zeros(len(self.vocabulary))
      vocab_list = sorted(list(self.vocabulary))
      for i, word in enumerate(vocab_list):
          if word in word_count:
              tf = word_count[word] / len(words)
              idf = self.idf_scores.get(word, 0)
              vector[i] = tf * idf
      norm = np.linalg.norm(vector)
      if norm > 0:
          vector = vector / norm
      return vector
  \<close>
\<close>

definition vocab_list :: "DenseRetrievalTool \<Rightarrow> string list" where
  "vocab_list t = sort (remdups (dense_vocabulary t))"

definition norm2 :: "real list \<Rightarrow> real" where
  "norm2 v = sqrt (sum_list (map (\<lambda>x. x * x) v))"

definition tfidf_weight :: "DenseRetrievalTool \<Rightarrow> string list \<Rightarrow> string \<Rightarrow> real" where
  "tfidf_weight t words word =
     (case map_of (Counter words) word of
        None \<Rightarrow> 0
      | Some n \<Rightarrow> (real n / real (length words))
                  * (case map_of (idf_scores t) word of None \<Rightarrow> 0 | Some idf \<Rightarrow> idf))"

definition text_to_vector :: "DenseRetrievalTool \<Rightarrow> string \<Rightarrow> real list" where
  "text_to_vector t text =
     (let words = tokenize text;
          vector = map (tfidf_weight t words) (vocab_list t);
          norm = norm2 vector
      in if norm > 0 then map (\<lambda>x. x / norm) vector else vector)"

definition generate_embeddings :: "DenseRetrievalTool \<Rightarrow> DenseRetrievalTool" where
  "generate_embeddings t =
     fold (\<lambda>(doc_path, text) t'. t'\<lparr> embeddings := dict_set (embeddings t') doc_path (text_to_vector t text) \<rparr>)
          (dense_documents t) t"

text \<open>
  \<^verbatim>\<open>index_documents\<close>. The pickled cache, when the file exists, replaces the documents and
  the vocabulary before the loop; it is the parameter \<open>cache\<close>.
\<close>

definition dense_index_documents ::
    "file_system \<Rightarrow> ((string \<times> string) list \<times> string list) option \<Rightarrow> string list \<Rightarrow> int
      \<Rightarrow> DenseRetrievalTool \<Rightarrow> py_error + DenseRetrievalTool" where
  "dense_index_documents fs cache file_paths chunk_size t0 =
     (let t1 = (case cache of None \<Rightarrow> t0
                | Some (docs, vocab) \<Rightarrow> t0\<lparr> dense_documents := docs, dense_vocabulary := vocab \<rparr>)
      in case dense_read_loop fs chunk_size file_paths t1 of
           Inl e \<Rightarrow> Inl e
         | Inr t2 \<Rightarrow>
             (case calculate_idf_scores t2 of
                Inl e \<Rightarrow> Inl e
              | Inr t3 \<Rightarrow> Inr (generate_embeddings t3)))"

text \<open>
  \<^verbatim>\<open>
  def _cosine_similarity(self, vec1, vec2):
      dot_product = np.dot(vec1, vec2)
      norm1 = np.linalg.norm(vec1)
      norm2 = np.linalg.norm(vec2)
      if norm1 == 0 or norm2 == 0:
          return 0.0
      return dot_product / (norm1 * norm2)
  \<close>
  \<^verbatim>\<open>np.dot\<close> raises \<^verbatim>\<open>ValueError\<close> on vectors of different lengths.
\<close>

definition dot :: "real list \<Rightarrow> real list \<Rightarrow> real" where
  "dot v w = sum_list (map (\<lambda>(x, y). x * y) (zip v w))"

definition cosine_similarity :: "real list \<Rightarrow> real list \<Rightarrow> py_error + real" where
  "cosine_similarity vec1 vec2 =
     (if length vec1 \<noteq> length vec2 then Inl ValueError
      else (let dot_product = dot vec1 vec2; n1 = norm2 vec1; n2 = norm2 vec2 in
            if n1 = 0 \<or> n2 = 0 then Inr 0 else Inr (dot_product / (n1 * n2))))"

fun similarity_loop :: "real list \<Rightarrow> real \<Rightarrow> (string \<times> real list) list \<Rightarrow> (string \<times> real) list
    \<Rightarrow> py_error + (string \<times> real) list" where
  "similarity_loop q threshold [] similarities = Inr similarities"
| "similarity_loop q threshold ((doc_path, doc_embedding) # es) similarities =
     (case cosine_similarity q doc_embedding of
        Inl e \<Rightarrow> Inl e
      | Inr similarity \<Rightarrow>
          similarity_loop q threshold es
            (if similarity \<ge> threshold then similarities @ [(doc_path, similarity)] else similarities))"

definition dense_result :: "string \<Rightarrow> string \<Rightarrow> real \<Rightarrow> string \<Rightarrow> SearchResult" where
  "dense_result query doc_path similarity c =
     \<lparr> source = takeWhile (\<lambda>ch. ch \<noteq> CHR ''#'') doc_path, content = preview c,
       relevance_score = similarity,
       metadata = [(''similarity'', MFloat similarity), (''document_chunk'', MStr doc_path),
                   (''content_length'', MInt (int (length c)))],
       search_query = query, tool_used = ''dense_retrieval'' \<rparr>"

fun dense_make_results :: "DenseRetrievalTool \<Rightarrow> string \<Rightarrow> (string \<times> real) list \<Rightarrow> py_error + SearchResult list" where
  "dense_make_results t query [] = Inr []"
| "dense_make_results t query ((doc_path, similarity) # xs) =
     (case map_of (dense_documents t) doc_path of
        None \<Rightarrow> Inl KeyError
      | Some c \<Rightarrow>
          (case dense_make_results t query xs of
             Inl e \<Rightarrow> Inl e
           | Inr rs \<Rightarrow> Inr (dense_result query doc_path similarity c # rs)))"

definition dense_search :: "DenseRetrievalTool \<Rightarrow> string \<Rightarrow> int \<Rightarrow> real \<Rightarrow> py_error + SearchResult list" where
  "dense_search t query top_k threshold =
     (if embeddings t = [] then Inr []
      else (let query_embedding = text_to_vector t query in
        case similarity_loop query_embedding threshold (embeddings t) [] of
          Inl e \<Rightarrow> Inl e
        | Inr similarities \<Rightarrow> dense_make_results t query (py_take top_k (sorted_desc snd similarities))))"

section \<open>Hybrid retrieval\<close>




text \<open>A value of the dictionary \<^verbatim>\<open>combined_scores\<close>.\<close>

record combined_entry =
  entry_result :: SearchResult
  dense_score :: real
  sparse_score :: real





definition hybrid_score :: "real \<Rightarrow> real \<Rightarrow> combined_entry \<Rightarrow> real" where
  "hybrid_score dw sw e = dw * dense_score e + sw * sparse_score e"

definition fuse :: "real \<Rightarrow> real \<Rightarrow> combined_entry \<Rightarrow> SearchResult" where
  "fuse dw sw e =
     (let hs = hybrid_score dw sw e; r = entry_result e in
      r\<lparr> relevance_score := hs,
         metadata := dict_set (dict_set (dict_set (metadata r) ''hybrid_score'' (MFloat hs))
                       ''dense_score'' (MFloat (dense_score e))) ''sparse_score'' (MFloat (sparse_score e)),
         tool_used := ''hybrid_retrieval'' \<rparr>)"




section \<open>Research controller\<close>

datatype ResearchStatus = PLANNING | SEARCHING | ANALYZING | ITERATING | SYNTHESIZING | COMPLETED

record ResearchIteration =
  iteration_number :: int
  iteration_query :: string
  iteration_results :: "SearchResult list"
  insights :: "string list"
  follow_up_questions :: "string list"
  iteration_status :: ResearchStatus

record ResearchState =
  original_query :: string
  current_query :: string
  research_goal :: string
  iterations :: "ResearchIteration list"
  current_iteration :: int
  status :: ResearchStatus
  all_results :: "SearchResult list"
  key_insights :: "string list"
  discovered_files :: "string list"
  search_strategies :: "string list"
  completed_searches :: "string list"
  pending_searches :: "string list"
  research_report :: "string option"
  confidence_score :: real
  max_iterations :: int
  similarity_threshold :: real
  workspace_path :: string

text \<open>
  What the nodes call outside the controller: file discovery, the search tools behind each
  strategy name (an exception inside a strategy is caught by the search node and gives no
  results, as does an unknown strategy name), the content analyzer and the rendering of
  the report. They are parameters of the model and are taken to return: a run in which
  one of them raises ends in the \<^verbatim>\<open>except\<close> branch of \<^verbatim>\<open>run_research\<close> with an
  error dictionary and no state, and is not a run of this model.
\<close>

record environment =
  discover_files :: "string list"
  run_strategy :: "string \<Rightarrow> string \<Rightarrow> string list \<Rightarrow> SearchResult list"
  extract_key_insights :: "SearchResult list \<Rightarrow> string list"
  suggest_follow_up_queries :: "SearchResult list \<Rightarrow> string \<Rightarrow> string list"
  render_report :: "ResearchState \<Rightarrow> string"

definition create_initial_state :: "string \<Rightarrow> int \<Rightarrow> real \<Rightarrow> string \<Rightarrow> string option \<Rightarrow> ResearchState" where
  "create_initial_state workspace max_it threshold q goal =
     \<lparr> original_query = q, current_query = q,
       research_goal = (case goal of None \<Rightarrow> ''Deep research on: '' @ q
                        | Some g \<Rightarrow> if g = [] then ''Deep research on: '' @ q else g),
       iterations = [], current_iteration = 0, status = PLANNING, all_results = [],
       key_insights = [], discovered_files = [], search_strategies = [],
       completed_searches = [], pending_searches = [], research_report = None,
       confidence_score = 0, max_iterations = max_it, similarity_threshold = threshold,
       workspace_path = workspace \<rparr>"

subsection \<open>Planning\<close>

text \<open>\<^verbatim>\<open>term in query_lower\<close>: the term occurs as a contiguous substring.\<close>

fun contains :: "string \<Rightarrow> string \<Rightarrow> bool" where
  "contains [] sub = (sub = [])"
| "contains (c # cs) sub = (prefix sub (c # cs) \<or> contains cs sub)"

definition plan_strategies :: "string \<Rightarrow> string list" where
  "plan_strategies q =
     (let query_lower = lower q in
      [''grep_search'', ''fuzzy_search'']
      @ (if list_ex (contains query_lower) [''function'', ''method'', ''class'', ''api'']
         then [''code_structure_analysis''] else [])
      @ (if list_ex (contains query_lower) [''config'', ''setting'', ''parameter'']
         then [''config_file_search''] else [])
      @ (if list_ex (contains query_lower) [''data'', ''process'', ''transform'']
         then [''data_flow_analysis''] else [])
      @ (if length (split q) > 3
         then [''dense_retrieval'', ''bm25_retrieval'', ''hybrid_retrieval''] else []))"

definition PlanningNode :: "environment \<Rightarrow> ResearchState \<Rightarrow> ResearchState" where
  "PlanningNode env st =
     (let strategies = plan_strategies (original_query st) in
      st\<lparr> discovered_files := take 100 (discover_files env),
          search_strategies := strategies,
          pending_searches := strategies,
          status := SEARCHING,
          current_iteration := 0 \<rparr>)"

subsection \<open>Search\<close>

definition SearchNode :: "environment \<Rightarrow> ResearchState \<Rightarrow> ResearchState" where
  "SearchNode env st =
     (case pending_searches st of
        [] \<Rightarrow> st\<lparr> status := ANALYZING \<rparr>
      | strategy # rest \<Rightarrow>
          (let q = (if current_query st \<noteq> [] then current_query st else original_query st);
               results = run_strategy env strategy q (discovered_files st);
               st' = st\<lparr> pending_searches := rest,
                         completed_searches := completed_searches st @ [strategy],
                         all_results := all_results st @ results \<rparr>
           in if pending_searches st' \<noteq> [] then st' else st'\<lparr> status := ANALYZING \<rparr>))"

subsection \<open>Analysis\<close>

text \<open>
  \<^verbatim>\<open>
  relevant_results = [r for r in state['all_results']
                      if r.relevance_score >= state['similarity_threshold']]
  if not relevant_results:
      relevant_results = sorted(state['all_results'],
                                key=lambda x: x.relevance_score, reverse=True)[:10]
  \<close>
\<close>

definition relevant_results :: "ResearchState \<Rightarrow> SearchResult list" where
  "relevant_results st =
     (let rs = filter (\<lambda>r. relevance_score r \<ge> similarity_threshold st) (all_results st) in
      if rs = [] then take 10 (sorted_desc relevance_score (all_results st)) else rs)"

text \<open>
  The node also calls \<^verbatim>\<open>analyze_content_patterns\<close> on the relevant results and drops
  what it returns; the call is left out.
\<close>

definition AnalysisNode :: "environment \<Rightarrow> ResearchState \<Rightarrow> ResearchState" where
  "AnalysisNode env st =
     (if all_results st = [] then
        st\<lparr> status := COMPLETED,
            research_report := Some ''No relevant results found for the query.'' \<rparr>
      else
        (let relevant = relevant_results st;
             ins = extract_key_insights env relevant;
             follow_ups = suggest_follow_up_queries env relevant (original_query st);
             it = \<lparr> iteration_number = current_iteration st,
                    iteration_query = (if current_query st \<noteq> [] then current_query st
                                       else original_query st),
                    iteration_results = relevant, insights = ins,
                    follow_up_questions = follow_ups, iteration_status = ANALYZING \<rparr>;
             st' = st\<lparr> iterations := iterations st @ [it],
                       key_insights := key_insights st @ ins \<rparr>
         in if current_iteration st' < max_iterations st' \<and> follow_ups \<noteq> []
               \<and> length relevant < 20
            then st'\<lparr> status := ITERATING \<rparr>
            else st'\<lparr> status := SYNTHESIZING \<rparr>))"

subsection \<open>Iteration\<close>

definition IterationNode :: "ResearchState \<Rightarrow> ResearchState" where
  "IterationNode st =
     (if iterations st = [] then st\<lparr> status := SYNTHESIZING \<rparr>
      else (let last_iteration = last (iterations st) in
        case follow_up_questions last_iteration of
          [] \<Rightarrow> st\<lparr> status := SYNTHESIZING \<rparr>
        | next_query # others \<Rightarrow>
            (let n = current_iteration st + 1 in
             st\<lparr> current_query := next_query,
                 current_iteration := n,
                 pending_searches := [''grep_search'', ''fuzzy_search'']
                    @ (if n > 1 then [''dense_retrieval'', ''bm25_retrieval''] else []),
                 completed_searches := [],
                 status := SEARCHING \<rparr>)))"

subsection \<open>Synthesis and report\<close>

text \<open>
  \<^verbatim>\<open>
  if state['all_results']:
      avg_relevance = sum(r.relevance_score for r in state['all_results']) / len(state['all_results'])
      confidence_factors.append(min(avg_relevance * 2, 1.0))
      iteration_factor = min(len(state['iterations']) / 3, 1.0)
      confidence_factors.append(iteration_factor)
      unique_sources = len(set(r.source for r in state['all_results']))
      source_factor = min(unique_sources / 10, 1.0)
      confidence_factors.append(source_factor)
  else:
      confidence_factors = [0.1]
  state['confidence_score'] = sum(confidence_factors) / len(confidence_factors)
  \<close>
\<close>

definition confidence_factors :: "ResearchState \<Rightarrow> real list" where
  "confidence_factors st =
     (if all_results st \<noteq> [] then
        (let avg_relevance = sum_list (map relevance_score (all_results st))
                               / real (length (all_results st));
             iteration_factor = min (real (length (iterations st)) / 3) 1;
             unique_sources = card (set (map source (all_results st)));
             source_factor = min (real unique_sources / 10) 1
         in [min (avg_relevance * 2) 1, iteration_factor, source_factor])
      else [0.1])"

definition SynthesisNode :: "ResearchState \<Rightarrow> ResearchState" where
  "SynthesisNode st =
     (let fs = confidence_factors st in
      st\<lparr> confidence_score := sum_list fs / real (length fs), status := COMPLETED \<rparr>)"

definition ReportNode :: "environment \<Rightarrow> ResearchState \<Rightarrow> ResearchState" where
  "ReportNode env st = st\<lparr> research_report := Some (render_report env st) \<rparr>"

subsection \<open>The workflow graph and its driver\<close>

datatype node = Planning | Search | Analysis | Iteration | Synthesis | Report

definition exec_node :: "environment \<Rightarrow> node \<Rightarrow> ResearchState \<Rightarrow> ResearchState" where
  "exec_node env nd st =
     (case nd of
        Planning \<Rightarrow> PlanningNode env st
      | Search \<Rightarrow> SearchNode env st
      | Analysis \<Rightarrow> AnalysisNode env st
      | Iteration \<Rightarrow> IterationNode st
      | Synthesis \<Rightarrow> SynthesisNode st
      | Report \<Rightarrow> ReportNode env st)"

definition search_condition :: "ResearchState \<Rightarrow> string" where
  "search_condition st = (if pending_searches st \<noteq> [] then ''continue_search'' else ''analyze'')"

definition analysis_condition :: "ResearchState \<Rightarrow> string" where
  "analysis_condition st = (if status st = ITERATING then ''iterate'' else ''synthesize'')"

text \<open>The edges of \<^verbatim>\<open>_build_workflow\<close>; \<^const>\<open>None\<close> is \<^verbatim>\<open>END\<close>.\<close>

definition next_node :: "node \<Rightarrow> ResearchState \<Rightarrow> node option" where
  "next_node nd st =
     (case nd of
        Planning \<Rightarrow> Some Search
      | Search \<Rightarrow> (if search_condition st = ''continue_search'' then Some Search else Some Analysis)
      | Analysis \<Rightarrow> (if analysis_condition st = ''iterate'' then Some Iteration else Some Synthesis)
      | Iteration \<Rightarrow> Some Search
      | Synthesis \<Rightarrow> Some Report
      | Report \<Rightarrow> None)"

text \<open>
  The loop of \<^verbatim>\<open>run_research\<close> over \<^verbatim>\<open>app.stream\<close>: each executed node is one step,
  \<^verbatim>\<open>final_state\<close> is the state it returned, and
  \<^verbatim>\<open>
  if step_count > 20:
      print("Maximum steps reached, stopping workflow")
      break
  \<close>
  leaves the loop. The graph is sequential, so each item of the stream is one executed
  node; the library's own recursion limit (25 by default) lies beyond the 21st step and
  is never reached. The driver returns the final state, the step count and the nodes
  executed, in order.
\<close>

function run_stream :: "environment \<Rightarrow> node \<Rightarrow> ResearchState \<Rightarrow> nat \<Rightarrow> node list
    \<Rightarrow> ResearchState \<times> nat \<times> node list" where
  "run_stream env nd st step_count trace =
     (let final_state = exec_node env nd st;
          step_count' = step_count + 1;
          trace' = trace @ [nd]
      in if step_count' > 20 then (final_state, step_count', trace')
         else (case next_node nd final_state of
                 None \<Rightarrow> (final_state, step_count', trace')
               | Some nd' \<Rightarrow> run_stream env nd' final_state step_count' trace'))"
  by pat_completeness auto
termination
  by (relation "measure (\<lambda>(env, nd, st, step_count, trace). 21 - step_count)") auto

definition run_research :: "environment \<Rightarrow> string \<Rightarrow> int \<Rightarrow> real \<Rightarrow> string \<Rightarrow> string option
    \<Rightarrow> ResearchState \<times> nat \<times> node list" where
  "run_research env workspace max_it threshold q goal =
     run_stream env Planning (create_initial_state workspace max_it threshold q goal) 0 []"

section \<open>Definitions for the statements and the proofs\<close>

subsection \<open>Notions used in the statements\<close>

text \<open>What \<^verbatim>\<open>if content:\<close> accepts after \<^verbatim>\<open>_read_file\<close>: the file could be read and is not empty.\<close>

definition readable :: "file_system \<Rightarrow> string \<Rightarrow> bool" where
  "readable fs p = (case fs p of None \<Rightarrow> False | Some c \<Rightarrow> c \<noteq> [])"

text \<open>The BM25 score that a result carries in its metadata under \<^verbatim>\<open>"bm25_score"\<close>.\<close>

definition raw_score :: "SearchResult \<Rightarrow> real" where
  "raw_score r = (case map_of (metadata r) ''bm25_score'' of Some (MFloat s) \<Rightarrow> s | _ \<Rightarrow> 0)"

text \<open>The score that the hybrid fusion reads for a source from a list of results: that of the last result with this source, \<open>0\<close> when there is none.\<close>

definition score_of :: "SearchResult list \<Rightarrow> string \<Rightarrow> real" where
  "score_of rs key =
     (if filter (\<lambda>r. source r = key) rs = [] then 0
      else relevance_score (last (filter (\<lambda>r. source r = key) rs)))"

text \<open>How often the iteration node ran in a trace.\<close>

definition count_it :: "node list \<Rightarrow> nat" where
  "count_it tr = length (filter (\<lambda>nd. nd = Iteration) tr)"

text \<open>No search strategy returns a negative relevance.\<close>

definition nonneg_env :: "environment \<Rightarrow> bool" where
  "nonneg_env env \<longleftrightarrow> (\<forall>strategy q files. \<forall>r \<in> set (run_strategy env strategy q files). 0 \<le> relevance_score r)"

subsection \<open>Invariants\<close>


text \<open>The loop of \<^verbatim>\<open>_generate_embeddings\<close> over the tool \<open>t0\<close>: only the embeddings change, and each is a vector of \<open>t0\<close>.\<close>

definition embedded_by :: "DenseRetrievalTool \<Rightarrow> DenseRetrievalTool \<Rightarrow> bool" where
  "embedded_by t0 t \<longleftrightarrow>
     dense_vocabulary t = dense_vocabulary t0 \<and> idf_scores t = idf_scores t0
     \<and> dense_documents t = dense_documents t0
     \<and> (\<forall>(p, e) \<in> set (embeddings t). \<exists>c. e = text_to_vector t0 c)"

text \<open>What holds of every dense index that \<^verbatim>\<open>index_documents\<close> builds from a fresh tool.\<close>

definition well_indexed :: "DenseRetrievalTool \<Rightarrow> bool" where
  "well_indexed t \<longleftrightarrow>
     (\<forall>(p, e) \<in> set (embeddings t). \<exists>c. e = text_to_vector t c)
     \<and> fst ` set (embeddings t) = fst ` set (dense_documents t)"


text \<open>The document frequency of a term, \<open>0\<close> when it has none yet.\<close>

definition df0 :: "BM25RetrievalTool \<Rightarrow> string \<Rightarrow> nat" where
  "df0 t tm = (case map_of (document_frequencies t) tm of None \<Rightarrow> 0 | Some n \<Rightarrow> n)"

text \<open>Every posting has a document frequency, and no document frequency exceeds \<open>n\<close>.\<close>

definition df_bounded :: "BM25RetrievalTool \<Rightarrow> nat \<Rightarrow> bool" where
  "df_bounded t n \<longleftrightarrow>
     (\<forall>tm d. has_posting t tm d \<longrightarrow> map_of (document_frequencies t) tm \<noteq> None)
     \<and> (\<forall>tm m. map_of (document_frequencies t) tm = Some m \<longrightarrow> m \<le> n)"

text \<open>The first loop of the BM25 \<^verbatim>\<open>index_documents\<close>, started from the tool \<open>t0\<close>.\<close>

definition read_inv :: "BM25RetrievalTool \<Rightarrow> BM25RetrievalTool \<times> nat \<Rightarrow> bool" where
  "read_inv t0 st \<longleftrightarrow> (case st of (t, tot) \<Rightarrow>
     term_frequencies t = term_frequencies t0
     \<and> document_frequencies t = document_frequencies t0
     \<and> bm25_k1 t = bm25_k1 t0 \<and> bm25_b t = bm25_b t0
     \<and> distinct (map fst (bm25_documents t))
     \<and> fst ` set (doc_lengths t) = fst ` set (bm25_documents t)
     \<and> (\<forall>(d, tokens) \<in> set (bm25_documents t). length tokens \<le> tot))"

text \<open>What holds of every BM25 index built from a fresh tool.\<close>

definition bm25_indexed :: "BM25RetrievalTool \<Rightarrow> bool" where
  "bm25_indexed t \<longleftrightarrow>
     distinct (map fst (bm25_documents t))
     \<and> fst ` set (doc_lengths t) = fst ` set (bm25_documents t)
     \<and> (\<forall>tm d. has_posting t tm d \<longleftrightarrow>
          (\<exists>tokens. map_of (bm25_documents t) d = Some tokens \<and> tm \<in> set tokens))
     \<and> df_bounded t (length (bm25_documents t))
     \<and> (\<forall>(d, tokens) \<in> set (bm25_documents t). tokens \<noteq> [] \<longrightarrow> 0 < avg_doc_length t)"

text \<open>The state of the workflow driver before it executes the node \<open>nd\<close> as step \<open>n + 1\<close>.\<close>

definition ctrl_inv :: "environment \<Rightarrow> int \<Rightarrow> node \<Rightarrow> ResearchState \<Rightarrow> nat \<Rightarrow> node list \<Rightarrow> bool" where
  "ctrl_inv env max_it nd st n tr \<longleftrightarrow>
     n = length tr \<and> n \<le> 20 \<and> max_iterations st = max_it
     \<and> int (count_it tr) = current_iteration st \<and> current_iteration st \<le> max 0 max_it
     \<and> (nonneg_env env \<longrightarrow> (\<forall>r \<in> set (all_results st). 0 \<le> relevance_score r))
     \<and> (case nd of
           Planning \<Rightarrow> n = 0 \<and> all_results st = []
         | Search \<Rightarrow> status st \<noteq> COMPLETED \<and> pending_searches st \<noteq> []
                     \<and> (all_results st = [] \<longrightarrow> n + length (pending_searches st) \<le> 9)
         | Analysis \<Rightarrow> (all_results st = [] \<longrightarrow> n \<le> 9)
         | Iteration \<Rightarrow> all_results st \<noteq> [] \<and> iterations st \<noteq> []
                     \<and> follow_up_questions (last (iterations st)) \<noteq> []
                     \<and> current_iteration st < max_it
         | Synthesis \<Rightarrow> (all_results st = [] \<longrightarrow> n \<le> 10)
                     \<and> (all_results st \<noteq> [] \<longrightarrow> iterations st \<noteq> [])
         | Report \<Rightarrow> status st = COMPLETED \<and> confidence_score st \<le> 1
                     \<and> (nonneg_env env \<longrightarrow> 0.1 \<le> confidence_score st)
                     \<and> (all_results st = [] \<longrightarrow> confidence_score st = 0.1 \<and> n \<le> 11))"

text \<open>What holds of the result of every run.\<close>

definition run_ok :: "environment \<Rightarrow> int \<Rightarrow> ResearchState \<times> nat \<times> node list \<Rightarrow> bool" where
  "run_ok env max_it res \<longleftrightarrow> (case res of (final, steps, tr) \<Rightarrow>
     steps = length tr \<and> steps \<le> 21 \<and> tr \<noteq> []
     \<and> int (count_it tr) \<le> max 0 max_it
     \<and> (steps < 21 \<longrightarrow> status final = COMPLETED \<and> last tr = Report)
     \<and> (status final = COMPLETED \<longrightarrow>
           confidence_score final \<le> 1 \<and> (nonneg_env env \<longrightarrow> 0.1 \<le> confidence_score final))
     \<and> (all_results final = [] \<longrightarrow> status final = COMPLETED \<and> confidence_score final = 0.1))"

subsection \<open>Example inputs\<close>

definition example_result :: "string \<Rightarrow> real \<Rightarrow> SearchResult" where
  "example_result src score =
     \<lparr> source = src, content = ''text'', relevance_score = score, metadata = [],
       search_query = ''q'', tool_used = ''grep_search'' \<rparr>"

text \<open>An environment whose grep strategy finds one result and whose analyzer always proposes a follow-up.\<close>

definition example_env :: environment where
  "example_env =
     \<lparr> discover_files = [''a.py''],
       run_strategy = (\<lambda>strategy q files.
          if strategy = ''grep_search'' then [example_result ''a.py'' 0.9] else []),
       extract_key_insights = (\<lambda>rs. []),
       suggest_follow_up_queries = (\<lambda>rs q. [''more'']),
       render_report = (\<lambda>st. ''report'') \<rparr>"

text \<open>An environment in which nothing is ever found.\<close>

definition empty_env :: environment where
  "empty_env =
     \<lparr> discover_files = [],
       run_strategy = (\<lambda>strategy q files. []),
       extract_key_insights = (\<lambda>rs. []),
       suggest_follow_up_queries = (\<lambda>rs q. []),
       render_report = (\<lambda>st. ''report'') \<rparr>"

definition example_state :: ResearchState where
  "example_state =
     (create_initial_state ''ws'' 3 0.3 ''fox'' None)
       \<lparr> status := ANALYZING,
          all_results := [example_result ''a.py'' 0.1, example_result ''b.py'' 0.2] \<rparr>"

text \<open>A corpus of three files.\<close>

definition example_fs :: file_system where
  "example_fs = map_of [(''a.txt'', ''the quick fox''), (''b.txt'', ''the quick dog''),
                        (''c.txt'', ''lazy cat sleeps'')]"

definition example_files :: "string list" where
  "example_files = [''a.txt'', ''b.txt'', ''c.txt'']"

definition example_bm25 :: BM25RetrievalTool where
  "example_bm25 = bm25_index_documents example_fs example_files (BM25_init 1.5 0.75)"

text \<open>The dense index of that corpus (lemma \<open>example_dense_index\<close>).\<close>

definition example_dense :: DenseRetrievalTool where
  "example_dense =
     \<lparr> dense_documents = [(''a.txt'', ''the quick fox''), (''b.txt'', ''the quick dog''),
                           (''c.txt'', ''lazy cat sleeps'')],
       embeddings = [(''a.txt'', [0, 0, 1, 0, 0, 0, 0]), (''b.txt'', [0, 1, 0, 0, 0, 0, 0]),
                     (''c.txt'', [1 / sqrt 3, 0, 0, 1 / sqrt 3, 0, 1 / sqrt 3, 0])],
       dense_vocabulary = [''sleeps'', ''cat'', ''lazy'', ''dog'', ''fox'', ''quick'', ''the''],
       idf_scores = [(''sleeps'', ln (3 / 2)), (''cat'', ln (3 / 2)), (''lazy'', ln (3 / 2)),
                     (''dog'', ln (3 / 2)), (''fox'', ln (3 / 2)), (''quick'', 0), (''the'', 0)] \<rparr>"


text \<open>The two-file corpus of the specification.\<close>

definition scenario_fs :: file_system where
  "scenario_fs = map_of [(''a.txt'', ''the quick fox''), (''b.txt'', ''the quick dog'')]"

definition scenario_bm25 :: BM25RetrievalTool where
  "scenario_bm25 = bm25_index_documents scenario_fs [''a.txt'', ''b.txt''] (BM25_init 1.5 0.75)"






section \<open>Sorting and slicing\<close>

lemma sorted_desc_sorted: "sorted_wrt (\<lambda>x y. f x \<ge> f y) (sorted_desc f xs)"
proof -
  have "sorted (map (\<lambda>x. - f x) (sort_key (\<lambda>x. - f x) xs))" by (rule sorted_sort_key)
  then show ?thesis by (simp add: sorted_desc_def sorted_map)
qed

lemma set_sorted_desc [simp]: "set (sorted_desc f xs) = set xs"
  by (simp add: sorted_desc_def)

lemma length_sorted_desc [simp]: "length (sorted_desc f xs) = length xs"
  by (simp add: sorted_desc_def)

lemma mset_sorted_desc [simp]: "mset (sorted_desc f xs) = mset xs"
  by (simp add: sorted_desc_def)

lemma sorted_desc_Nil_iff [simp]: "sorted_desc f xs = [] \<longleftrightarrow> xs = []"
  by (metis length_sorted_desc length_0_conv)

lemma sorted_wrt_take_drop:
  assumes "sorted_wrt P xs" "x \<in> set (take n xs)" "y \<in> set (drop n xs)"
  shows "P x y"
proof -
  have "sorted_wrt P (take n xs @ drop n xs)" using assms(1) by simp
  then show ?thesis using assms(2,3) unfolding sorted_wrt_append by blast
qed

lemma sorted_wrt_take: "sorted_wrt P xs \<Longrightarrow> sorted_wrt P (take n xs)"
  by (metis append_take_drop_id sorted_wrt_append)

section \<open>The analysis stage\<close>

lemma relevant_results_nonempty: "all_results st \<noteq> [] \<Longrightarrow> relevant_results st \<noteq> []"
  by (auto simp: relevant_results_def Let_def)

lemma relevant_results_pass:
  "\<exists>r \<in> set (all_results st). relevance_score r \<ge> similarity_threshold st \<Longrightarrow>
     relevant_results st = filter (\<lambda>r. relevance_score r \<ge> similarity_threshold st) (all_results st)"
  by (auto simp: relevant_results_def Let_def filter_empty_conv)

lemma relevant_results_fallback:
  "\<not> (\<exists>r \<in> set (all_results st). relevance_score r \<ge> similarity_threshold st) \<Longrightarrow>
     relevant_results st = take 10 (sorted_desc relevance_score (all_results st))"
  by (auto simp: relevant_results_def Let_def filter_empty_conv)

text \<open>
  C6. For a state with a non-empty accumulated result list, the results handed to the
  analysis are exactly those with \<open>relevance_score \<ge> similarity_threshold\<close>, in their
  order; when none meets the threshold they are the first ten of the results sorted by
  descending relevance. In both cases the list is not empty, and it is the list recorded
  in the new iteration and passed to the insight and follow-up functions.
\<close>

theorem analysis_relevance_filter:
  assumes "all_results st \<noteq> []"
  shows "relevant_results st \<noteq> []
    \<and> (if \<exists>r \<in> set (all_results st). relevance_score r \<ge> similarity_threshold st
       then relevant_results st
              = filter (\<lambda>r. relevance_score r \<ge> similarity_threshold st) (all_results st)
       else relevant_results st = take 10 (sorted_desc relevance_score (all_results st))
          \<and> length (relevant_results st) = min 10 (length (all_results st))
          \<and> sorted_wrt (\<lambda>x y. relevance_score x \<ge> relevance_score y) (relevant_results st)
          \<and> mset (relevant_results st @ drop 10 (sorted_desc relevance_score (all_results st)))
              = mset (all_results st)
          \<and> (\<forall>x \<in> set (relevant_results st).
               \<forall>y \<in> set (drop 10 (sorted_desc relevance_score (all_results st))).
                 relevance_score y \<le> relevance_score x))
    \<and> iteration_results (last (iterations (AnalysisNode env st))) = relevant_results st
    \<and> insights (last (iterations (AnalysisNode env st)))
        = extract_key_insights env (relevant_results st)
    \<and> follow_up_questions (last (iterations (AnalysisNode env st)))
        = suggest_follow_up_queries env (relevant_results st) (original_query st)"
proof -
  let ?S = "sorted_desc relevance_score (all_results st)"
  have ne: "relevant_results st \<noteq> []" using assms by (rule relevant_results_nonempty)
  have node: "iteration_results (last (iterations (AnalysisNode env st))) = relevant_results st
    \<and> insights (last (iterations (AnalysisNode env st)))
        = extract_key_insights env (relevant_results st)
    \<and> follow_up_questions (last (iterations (AnalysisNode env st)))
        = suggest_follow_up_queries env (relevant_results st) (original_query st)"
    using assms by (simp add: AnalysisNode_def Let_def)
  show ?thesis
  proof (cases "\<exists>r \<in> set (all_results st). relevance_score r \<ge> similarity_threshold st")
    case True
    then show ?thesis using ne node relevant_results_pass [OF True] by simp
  next
    case False
    have eq: "relevant_results st = take 10 ?S" by (rule relevant_results_fallback [OF False])
    have srt: "sorted_wrt (\<lambda>x y. relevance_score x \<ge> relevance_score y) ?S"
      by (rule sorted_desc_sorted)
    have a: "length (take 10 ?S) = min 10 (length (all_results st))" by simp
    have b: "sorted_wrt (\<lambda>x y. relevance_score x \<ge> relevance_score y) (take 10 ?S)"
      using srt by (rule sorted_wrt_take)
    have c: "mset (take 10 ?S @ drop 10 ?S) = mset (all_results st)" by simp
    have d: "\<forall>x \<in> set (take 10 ?S). \<forall>y \<in> set (drop 10 ?S). relevance_score y \<le> relevance_score x"
      using sorted_wrt_take_drop [OF srt] by blast
    show ?thesis using False ne node eq a b c d by simp
  qed
qed

theorem analysis_relevance_filter_witness:
  "all_results example_state \<noteq> []
   \<and> map source (relevant_results example_state) = [''b.py'', ''a.py'']"
  using analysis_relevance_filter [of example_state example_env]
  by (simp add: example_state_def create_initial_state_def example_result_def sorted_desc_def)

text \<open>
  C4. For a state with a non-empty accumulated result list, the analysis node sets the
  status to \<open>ITERATING\<close> if and only if \<open>current_iteration < max_iterations\<close>, the
  follow-up list is not empty and fewer than 20 results were kept by the relevance
  filter; otherwise it sets \<open>SYNTHESIZING\<close>. The edge out of the analysis node follows
  the status.
\<close>

theorem analysis_transition:
  assumes "all_results st \<noteq> []"
  shows "(status (AnalysisNode env st) = ITERATING \<longleftrightarrow>
            current_iteration st < max_iterations st
            \<and> suggest_follow_up_queries env (relevant_results st) (original_query st) \<noteq> []
            \<and> length (relevant_results st) < 20)
       \<and> (status (AnalysisNode env st) = SYNTHESIZING \<longleftrightarrow>
            \<not> (current_iteration st < max_iterations st
            \<and> suggest_follow_up_queries env (relevant_results st) (original_query st) \<noteq> []
            \<and> length (relevant_results st) < 20))
       \<and> next_node Analysis (AnalysisNode env st)
           = (if status (AnalysisNode env st) = ITERATING then Some Iteration else Some Synthesis)"
  using assms by (simp add: AnalysisNode_def Let_def next_node_def analysis_condition_def)

theorem analysis_transition_witness:
  "all_results example_state \<noteq> []
   \<and> status (AnalysisNode example_env example_state) = ITERATING
   \<and> next_node Analysis (AnalysisNode example_env example_state) = Some Iteration"
  using analysis_transition [of example_state example_env]
  by (simp add: example_state_def create_initial_state_def example_result_def example_env_def
      relevant_results_def sorted_desc_def)

section \<open>Dictionaries and the combined scores\<close>

lemma map_fst_dict_set:
  "map fst (dict_set d k v) = (if k \<in> fst ` set d then map fst d else map fst d @ [k])"
proof (induction d)
  case Nil then show ?case by simp
next
  case (Cons a d)
  obtain k' v' where a: "a = (k', v')" by (cases a)
  show ?case using Cons by (cases "k' = k") (simp_all add: a)
qed

lemma keys_dict_set: "fst ` set (dict_set d k v) = insert k (fst ` set d)"
proof -
  have "set (map fst (dict_set d k v)) = insert k (set (map fst d))"
    unfolding map_fst_dict_set by auto
  then show ?thesis by simp
qed

lemma set_dict_set_subset: "set (dict_set d k v) \<subseteq> insert (k, v) (set d)"
proof (induction d)
  case Nil then show ?case by simp
next
  case (Cons a d)
  obtain k' v' where a: "a = (k', v')" by (cases a)
  show ?case using Cons by (cases "k' = k") (auto simp: a)
qed

lemma map_of_dict_set: "map_of (dict_set d k v) = (map_of d)(k \<mapsto> v)"
  by (induction d) auto

lemma distinct_dict_set: "distinct (map fst d) \<Longrightarrow> distinct (map fst (dict_set d k v))"
  by (simp add: map_fst_dict_set)






lemma score_of_Nil [simp]: "score_of [] key = 0"
  by (simp add: score_of_def)








lemma source_fuse [simp]: "source (fuse dw sw e) = source (entry_result e)"
  by (simp add: fuse_def Let_def)

lemma relevance_fuse [simp]: "relevance_score (fuse dw sw e) = hybrid_score dw sw e"
  by (simp add: fuse_def Let_def)


section \<open>Dense retrieval: the index and the search\<close>

subsection \<open>Counter\<close>

lemma keys_fold_dict_set:
  "fst ` set (fold (\<lambda>x c. dict_set c x (g c x)) xs c0) = fst ` set c0 \<union> set xs"
  by (induction xs arbitrary: c0) (auto simp: keys_dict_set)

lemma keys_Counter: "fst ` set (Counter xs) = set xs"
  unfolding Counter_def keys_fold_dict_set by simp

lemma Counter_None_iff: "map_of (Counter xs) w = None \<longleftrightarrow> w \<notin> set xs"
  by (simp add: map_of_eq_None_iff keys_Counter)

subsection \<open>Vectors\<close>

lemma tfidf_weight_absent: "w \<notin> set ws \<Longrightarrow> tfidf_weight t ws w = 0"
  using Counter_None_iff [of ws w] by (simp add: tfidf_weight_def)

lemma length_text_to_vector [simp]: "length (text_to_vector t c) = length (vocab_list t)"
  by (simp add: text_to_vector_def Let_def)

lemma set_vocab_list [simp]: "set (vocab_list t) = set (dense_vocabulary t)"
  by (simp add: vocab_list_def)


lemma norm2_replicate_0 [simp]: "norm2 (replicate n 0) = 0"
  by (simp add: norm2_def sum_list_replicate)

lemma text_to_vector_oov:
  assumes "set (tokenize q) \<inter> set (dense_vocabulary t) = {}"
  shows "text_to_vector t q = replicate (length (vocab_list t)) 0"
proof -
  have "map (tfidf_weight t (tokenize q)) (vocab_list t) = map (\<lambda>w. 0) (vocab_list t)"
    using assms by (intro map_cong refl tfidf_weight_absent) auto
  then have "map (tfidf_weight t (tokenize q)) (vocab_list t) = replicate (length (vocab_list t)) 0"
    by (simp add: map_replicate_const)
  then show ?thesis by (simp add: text_to_vector_def Let_def)
qed

lemma cosine_zero_norm:
  "norm2 u = 0 \<Longrightarrow> length u = length v \<Longrightarrow> cosine_similarity u v = Inr 0"
  by (simp add: cosine_similarity_def Let_def)

lemma similarity_loop_all_zero:
  assumes "\<forall>(p, e) \<in> set es. cosine_similarity q e = Inr 0" "0 < threshold"
  shows "similarity_loop q threshold es acc = Inr acc"
  using assms by (induction es arbitrary: acc) auto

subsection \<open>The index built by \<open>index_documents\<close>\<close>

lemma text_to_vector_cong:
  assumes "dense_vocabulary t = dense_vocabulary t'" "idf_scores t = idf_scores t'"
  shows "text_to_vector t c = text_to_vector t' c"
  unfolding text_to_vector_def vocab_list_def tfidf_weight_def [abs_def] assms ..

lemma embed_fold:
  assumes "embedded_by t0 t"
  shows "embedded_by t0
     (fold (\<lambda>(doc_path, text) t'. t'\<lparr> embeddings := dict_set (embeddings t') doc_path (text_to_vector t0 text) \<rparr>) docs t)"
  using assms
proof (induction docs arbitrary: t)
  case Nil then show ?case by simp
next
  case (Cons d docs)
  obtain p c where d: "d = (p, c)" by (cases d)
  have "embedded_by t0 (t\<lparr> embeddings := dict_set (embeddings t) p (text_to_vector t0 c) \<rparr>)"
    using Cons.prems set_dict_set_subset [of "embeddings t" p "text_to_vector t0 c"]
    by (auto simp: embedded_by_def)
  then show ?case using Cons.IH by (simp add: d)
qed

lemma keys_embed_fold:
  "fst ` set (embeddings (fold (\<lambda>(doc_path, text) t'. t'\<lparr> embeddings := dict_set (embeddings t') doc_path (f text) \<rparr>) docs t))
     = fst ` set (embeddings t) \<union> fst ` set docs"
proof (induction docs arbitrary: t)
  case Nil then show ?case by simp
next
  case (Cons d docs)
  obtain p c where d: "d = (p, c)" by (cases d)
  show ?case unfolding d by (simp add: Cons.IH keys_dict_set)
qed

lemma docs_embed_fold:
  "dense_documents (fold (\<lambda>(doc_path, text) t'. t'\<lparr> embeddings := dict_set (embeddings t') doc_path (f text) \<rparr>) docs t)
     = dense_documents t"
  by (induction docs arbitrary: t) auto

lemma generate_embeddings_spec:
  assumes "embeddings t = []"
  shows "embedded_by t (generate_embeddings t)
         \<and> fst ` set (embeddings (generate_embeddings t)) = fst ` set (dense_documents t)"
proof -
  have "embedded_by t t" using assms by (simp add: embedded_by_def)
  then show ?thesis
    unfolding generate_embeddings_def using assms
    by (simp add: embed_fold keys_embed_fold)
qed

lemma embeddings_add_document [simp]: "embeddings (dense_add_document p c t) = embeddings t"
  by (simp add: dense_add_document_def)

lemma embeddings_add_chunks [simp]: "embeddings (dense_add_chunks p cs t) = embeddings t"
proof -
  have "embeddings (fold (\<lambda>(i, chunk). dense_add_document (chunk_path p i) chunk) xs t) = embeddings t"
    for xs :: "(nat \<times> string) list"
    by (induction xs arbitrary: t) auto
  then show ?thesis by (simp add: dense_add_chunks_def)
qed

lemma embeddings_read_step:
  "dense_read_step fs cs p t = Inr t' \<Longrightarrow> embeddings t' = embeddings t"
  by (auto simp: dense_read_step_def split: if_splits option.splits sum.splits)

lemma embeddings_read_loop:
  "dense_read_loop fs cs ps t = Inr t' \<Longrightarrow> embeddings t' = embeddings t"
  by (induction ps arbitrary: t) (auto split: sum.splits dest: embeddings_read_step)

lemma embeddings_idf:
  "calculate_idf_scores t = Inr t' \<Longrightarrow> embeddings t' = embeddings t"
  by (auto simp: calculate_idf_scores_def split: sum.splits)

lemma dense_index_well_indexed:
  assumes "dense_index_documents fs cache files chunk_size Dense_init = Inr t"
  shows "well_indexed t"
proof -
  let ?t1 = "case cache of None \<Rightarrow> Dense_init
             | Some (docs, vocab) \<Rightarrow> Dense_init\<lparr> dense_documents := docs, dense_vocabulary := vocab \<rparr>"
  obtain t2 t3 where
    t2: "dense_read_loop fs chunk_size files ?t1 = Inr t2" and
    t3: "calculate_idf_scores t2 = Inr t3" and
    t: "t = generate_embeddings t3"
    using assms by (auto simp: dense_index_documents_def Let_def split: sum.splits)
  have "embeddings ?t1 = []" by (simp add: Dense_init_def split: option.splits)
  then have "embeddings t3 = []"
    using embeddings_read_loop [OF t2] embeddings_idf [OF t3] by simp
  then have g: "embedded_by t3 t" "fst ` set (embeddings t) = fst ` set (dense_documents t3)"
    using generate_embeddings_spec [of t3] t by simp_all
  have eq: "text_to_vector t3 c = text_to_vector t c" for c
    using g(1) by (intro text_to_vector_cong) (simp_all add: embedded_by_def)
  show ?thesis using g eq by (auto simp: well_indexed_def embedded_by_def)
qed

lemma well_indexed_lengths:
  "well_indexed t \<Longrightarrow> (p, e) \<in> set (embeddings t) \<Longrightarrow> length e = length (vocab_list t)"
  by (auto simp: well_indexed_def)

lemma dense_make_results_Nil [simp]: "dense_make_results t q [] = Inr []"
  by simp

text \<open>
  C7. On a non-empty index built by \<open>index_documents\<close>, a query with no token in the
  vocabulary (or no token at all) has a zero vector of norm \<open>0\<close>, its cosine similarity
  with every stored embedding is \<open>0\<close>, and the search, with the default threshold
  \<open>0.1\<close> or any positive one, returns the empty list and raises no error.
\<close>

theorem oov_query_empty:
  assumes "dense_index_documents fs cache files chunk_size Dense_init = Inr t"
      and "embeddings t \<noteq> []"
      and "set (tokenize q) \<inter> set (dense_vocabulary t) = {}"
      and "0 < threshold"
  shows "norm2 (text_to_vector t q) = 0
       \<and> (\<forall>(p, e) \<in> set (embeddings t). cosine_similarity (text_to_vector t q) e = Inr 0)
       \<and> dense_search t q top_k threshold = Inr []"
proof -
  have wi: "well_indexed t" using assms(1) by (rule dense_index_well_indexed)
  have z: "text_to_vector t q = replicate (length (vocab_list t)) 0"
    using assms(3) by (rule text_to_vector_oov)
  have n: "norm2 (text_to_vector t q) = 0" unfolding z by simp
  have c: "\<forall>(p, e) \<in> set (embeddings t). cosine_similarity (text_to_vector t q) e = Inr 0"
  proof (clarify)
    fix p e assume "(p, e) \<in> set (embeddings t)"
    then have "length e = length (vocab_list t)" using wi by (rule well_indexed_lengths [rotated])
    then show "cosine_similarity (text_to_vector t q) e = Inr 0"
      using n by (intro cosine_zero_norm) simp_all
  qed
  have "similarity_loop (text_to_vector t q) threshold (embeddings t) [] = Inr []"
    using c assms(4) by (rule similarity_loop_all_zero)
  then have "dense_search t q top_k threshold = Inr []"
    using assms(2) by (simp add: dense_search_def Let_def py_take_def sorted_desc_def)
  then show ?thesis using n c by simp
qed

subsection \<open>Cauchy-Schwarz on lists\<close>

lemma dot_Cons [simp]: "dot (x # u) (y # v) = x * y + dot u v"
  by (simp add: dot_def)

lemma dot_Nil [simp]: "dot [] v = 0"
  by (simp add: dot_def)







subsection \<open>Sign coherence of the embeddings\<close>






subsection \<open>Scores of the dense results\<close>





section \<open>BM25 retrieval: the index and the search\<close>

subsection \<open>BM25: the scoring loops\<close>

lemma score_loop_no_posting:
  "\<forall>term \<in> set terms. \<not> has_posting t term d \<Longrightarrow> bm25_score_loop t d terms s = Inr s"
  by (induction terms arbitrary: s) auto

lemma bm25_score_no_posting:
  "\<forall>term \<in> set terms. \<not> has_posting t term d \<Longrightarrow> bm25_score t d terms = Inr 0"
  by (simp add: bm25_score_def score_loop_no_posting)

lemma doc_loop_scores:
  assumes "bm25_doc_loop t q ds acc = Inr scores" "(d, s) \<in> set scores"
  shows "(d, s) \<in> set acc \<or> (d \<in> set ds \<and> bm25_score t d q = Inr s \<and> 0 < s)"
  using assms
proof (induction ds arbitrary: acc)
  case Nil then show ?case by simp
next
  case (Cons d' ds)
  obtain s' where s': "bm25_score t d' q = Inr s'"
    using Cons.prems(1) by (auto split: sum.splits)
  let ?acc = "if s' > 0 then dict_set acc d' s' else acc"
  have "bm25_doc_loop t q ds ?acc = Inr scores" using Cons.prems(1) s' by simp
  from Cons.IH [OF this Cons.prems(2)] show ?case
    using s' set_dict_set_subset [of acc d' s'] by (auto split: if_splits)
qed


lemma make_results_map_filter:
  "bm25_make_results t fs q qt ranked =
     map (\<lambda>(d, s). bm25_result t q qt d s (the (fs d))) (filter (\<lambda>(d, s). readable fs d) ranked)"
  by (induction ranked) (auto simp: bm25_make_results_def readable_def split: option.splits)

lemma make_results_member:
  assumes "r \<in> set (bm25_make_results t fs q qt ranked)"
  shows "\<exists>d s c. (d, s) \<in> set ranked \<and> fs d = Some c \<and> c \<noteq> [] \<and> r = bm25_result t q qt d s c"
proof -
  obtain d s where ds: "(d, s) \<in> set ranked" "readable fs d" "r = bm25_result t q qt d s (the (fs d))"
    using assms unfolding make_results_map_filter by auto
  obtain c where "fs d = Some c" "c \<noteq> []"
    using ds(2) by (auto simp: readable_def split: option.splits)
  then show ?thesis using ds by auto
qed

lemma raw_score_bm25_result [simp]: "raw_score (bm25_result t q qt d s c) = s"
  by (simp add: raw_score_def bm25_result_def)

lemma source_bm25_result [simp]: "source (bm25_result t q qt d s c) = d"
  by (simp add: bm25_result_def)

lemma relevance_bm25_result [simp]: "relevance_score (bm25_result t q qt d s c) = min (s / 10) 1"
  by (simp add: bm25_result_def)



text \<open>Search on any tool state: what a successful search returns.\<close>

lemma bm25_search_ranked:
  assumes "bm25_search t fs q top_k = Inr rs"
  shows "\<exists>scores n. bm25_doc_loop t (tokenize q) (map fst (bm25_documents t)) [] = Inr scores
          \<and> rs = bm25_make_results t fs q (tokenize q) (take n (sorted_desc snd scores))
          \<and> (0 \<le> top_k \<longrightarrow> n = nat top_k)"
proof (cases "bm25_documents t = []")
  case True
  then have "rs = []" using assms by (simp add: bm25_search_def)
  then show ?thesis using True by (intro exI [of _ "[]"] exI [of _ "nat top_k"]) (simp add: bm25_make_results_def sorted_desc_def)
next
  case False
  then obtain scores where sc: "bm25_doc_loop t (tokenize q) (map fst (bm25_documents t)) [] = Inr scores"
    and rs: "rs = bm25_make_results t fs q (tokenize q) (py_take top_k (sorted_desc snd scores))"
    using assms by (auto simp: bm25_search_def Let_def split: sum.splits)
  show ?thesis
  proof (cases "0 \<le> top_k")
    case True
    then show ?thesis using sc rs by (intro exI [of _ scores] exI [of _ "nat top_k"]) (simp add: py_take_def)
  next
    case False
    then show ?thesis using sc rs
      by (intro exI [of _ scores] exI [of _ "length (sorted_desc snd scores) - nat (- top_k)"]) (simp add: py_take_def)
  qed
qed

subsection \<open>BM25: the index built by \<open>index_documents\<close>\<close>

lemma post_term_posting:
  "has_posting (bm25_post_term d (tm, freq) t) tm' d'
     \<longleftrightarrow> has_posting t tm' d' \<or> (tm' = tm \<and> d' = d)"
  by (auto simp: has_posting_def bm25_post_term_def Let_def dict_has_def map_of_dict_set
           split: option.splits if_splits)

lemma post_term_df:
  "map_of (document_frequencies (bm25_post_term d (tm, freq) t)) tm'
     = (if tm' = tm then Some (df0 t tm + 1) else map_of (document_frequencies t) tm')"
  by (auto simp: bm25_post_term_def Let_def dict_has_def map_of_dict_set df0_def
           split: option.splits)

lemma post_term_fields [simp]:
  "bm25_documents (bm25_post_term d tc t) = bm25_documents t"
  "doc_lengths (bm25_post_term d tc t) = doc_lengths t"
  "avg_doc_length (bm25_post_term d tc t) = avg_doc_length t"
  "bm25_k1 (bm25_post_term d tc t) = bm25_k1 t"
  "bm25_b (bm25_post_term d tc t) = bm25_b t"
  by (simp_all add: bm25_post_term_def Let_def split: prod.splits)

lemma post_terms_fields [simp]:
  "bm25_documents (fold (bm25_post_term d) items t) = bm25_documents t"
  "doc_lengths (fold (bm25_post_term d) items t) = doc_lengths t"
  "avg_doc_length (fold (bm25_post_term d) items t) = avg_doc_length t"
  "bm25_k1 (fold (bm25_post_term d) items t) = bm25_k1 t"
  "bm25_b (fold (bm25_post_term d) items t) = bm25_b t"
  by (induction items arbitrary: t; simp)+

lemma post_terms_posting:
  "has_posting (fold (bm25_post_term d) items t) tm' d'
     \<longleftrightarrow> has_posting t tm' d' \<or> (tm' \<in> fst ` set items \<and> d' = d)"
proof (induction items arbitrary: t)
  case Nil then show ?case by simp
next
  case (Cons a items)
  obtain tm freq where a: "a = (tm, freq)" by (cases a)
  show ?case by (auto simp: a Cons.IH post_term_posting)
qed

lemma post_terms_df:
  assumes "distinct (map fst items)"
  shows "map_of (document_frequencies (fold (bm25_post_term d) items t)) tm'
     = (if tm' \<in> fst ` set items then Some (df0 t tm' + 1)
        else map_of (document_frequencies t) tm')"
  using assms
proof (induction items arbitrary: t)
  case Nil then show ?case by simp
next
  case (Cons a items)
  obtain tm freq where a: "a = (tm, freq)" by (cases a)
  have d: "distinct (map fst items)" and n: "tm \<notin> fst ` set items"
    using Cons.prems by (auto simp: a)
  have "df0 (bm25_post_term d (tm, freq) t) tm' = df0 t tm'" if "tm' \<noteq> tm"
    using that by (simp add: df0_def post_term_df)
  then show ?case using n by (auto simp: a Cons.IH [OF d] post_term_df)
qed

lemma distinct_Counter: "distinct (map fst (Counter xs))"
proof -
  have "distinct (map fst c0) \<Longrightarrow>
        distinct (map fst (fold (\<lambda>x c. dict_set c x (g c x)) xs c0))" for g :: "('a \<times> nat) list \<Rightarrow> 'a \<Rightarrow> nat" and c0
    by (induction xs arbitrary: c0) (simp_all add: distinct_dict_set)
  then show ?thesis unfolding Counter_def by simp
qed

lemma post_doc_fields [simp]:
  "bm25_documents (bm25_post_doc dt t) = bm25_documents t"
  "doc_lengths (bm25_post_doc dt t) = doc_lengths t"
  "avg_doc_length (bm25_post_doc dt t) = avg_doc_length t"
  "bm25_k1 (bm25_post_doc dt t) = bm25_k1 t"
  "bm25_b (bm25_post_doc dt t) = bm25_b t"
  by (simp_all add: bm25_post_doc_def split: prod.splits)

lemma post_doc_posting:
  "has_posting (bm25_post_doc (d, tokens) t) tm' d'
     \<longleftrightarrow> has_posting t tm' d' \<or> (tm' \<in> set tokens \<and> d' = d)"
  by (simp add: bm25_post_doc_def post_terms_posting keys_Counter)

lemma post_doc_df:
  "map_of (document_frequencies (bm25_post_doc (d, tokens) t)) tm'
     = (if tm' \<in> set tokens then Some (df0 t tm' + 1)
        else map_of (document_frequencies t) tm')"
  by (simp add: bm25_post_doc_def post_terms_df [OF distinct_Counter] keys_Counter)

lemma post_doc_df_bounded:
  assumes "df_bounded t n"
  shows "df_bounded (bm25_post_doc (d, tokens) t) (Suc n)"
proof -
  have b: "df0 t tm \<le> n" for tm
    using assms by (auto simp: df_bounded_def df0_def split: option.splits)
  have p1: "map_of (document_frequencies (bm25_post_doc (d, tokens) t)) tm \<noteq> None"
    if "has_posting (bm25_post_doc (d, tokens) t) tm d'" for tm d'
    using that assms by (auto simp: df_bounded_def post_doc_posting post_doc_df)
  have p2: "m \<le> Suc n"
    if "map_of (document_frequencies (bm25_post_doc (d, tokens) t)) tm = Some m" for tm m
  proof (cases "tm \<in> set tokens")
    case True
    then have "m = df0 t tm + 1" using that by (simp add: post_doc_df)
    then show ?thesis using b [of tm] by simp
  next
    case False
    then have "map_of (document_frequencies t) tm = Some m" using that by (simp add: post_doc_df)
    then have "m \<le> n" using assms by (auto simp: df_bounded_def)
    then show ?thesis by simp
  qed
  show ?thesis unfolding df_bounded_def using p1 p2 by blast
qed

lemma post_docs_fields [simp]:
  "bm25_documents (fold bm25_post_doc docs t) = bm25_documents t"
  "doc_lengths (fold bm25_post_doc docs t) = doc_lengths t"
  "avg_doc_length (fold bm25_post_doc docs t) = avg_doc_length t"
  "bm25_k1 (fold bm25_post_doc docs t) = bm25_k1 t"
  "bm25_b (fold bm25_post_doc docs t) = bm25_b t"
  by (induction docs arbitrary: t; simp)+

lemma post_docs_posting:
  "has_posting (fold bm25_post_doc docs t) tm d
     \<longleftrightarrow> has_posting t tm d \<or> (\<exists>tokens. (d, tokens) \<in> set docs \<and> tm \<in> set tokens)"
proof (induction docs arbitrary: t)
  case Nil then show ?case by simp
next
  case (Cons a docs)
  obtain d' tokens' where a: "a = (d', tokens')" by (cases a)
  show ?case by (auto simp: a Cons.IH post_doc_posting)
qed

lemma post_docs_df_bounded:
  "df_bounded t n \<Longrightarrow> df_bounded (fold bm25_post_doc docs t) (n + length docs)"
proof (induction docs arbitrary: t n)
  case Nil then show ?case by simp
next
  case (Cons a docs)
  obtain d' tokens' where a: "a = (d', tokens')" by (cases a)
  have "df_bounded (bm25_post_doc (d', tokens') t) (Suc n)"
    using Cons.prems by (rule post_doc_df_bounded)
  from Cons.IH [OF this] show ?case by (simp add: a)
qed

lemma read_step_inv:
  assumes "read_inv t0 st"
  shows "read_inv t0 (bm25_read_step fs p st)"
proof -
  obtain t tot where st: "st = (t, tot)" by (cases st)
  show ?thesis
  proof (cases "fs p")
    case None then show ?thesis using assms by (simp add: st bm25_read_step_def)
  next
    case (Some c)
    show ?thesis
    proof (cases "c = []")
      case True then show ?thesis using assms Some by (simp add: st bm25_read_step_def)
    next
      case False
      have "\<forall>(d, tokens) \<in> set (dict_set (bm25_documents t) p (tokenize c)).
              length tokens \<le> tot + length (tokenize c)"
        using assms set_dict_set_subset [of "bm25_documents t" p "tokenize c"]
        by (fastforce simp: read_inv_def st)
      then show ?thesis using assms Some False
        by (simp add: st bm25_read_step_def read_inv_def Let_def distinct_dict_set keys_dict_set)
    qed
  qed
qed

lemma read_loop_inv: "read_inv t0 st \<Longrightarrow> read_inv t0 (fold (bm25_read_step fs) files st)"
  by (induction files arbitrary: st) (simp_all add: read_step_inv)

lemma bm25_index_indexed:
  "bm25_indexed (bm25_index_documents fs files (BM25_init k1' b'))
   \<and> bm25_k1 (bm25_index_documents fs files (BM25_init k1' b')) = k1'
   \<and> bm25_b (bm25_index_documents fs files (BM25_init k1' b')) = b'"
proof -
  let ?t0 = "BM25_init k1' b'"
  obtain t1 tot where f: "fold (bm25_read_step fs) files (?t0, 0) = (t1, tot)"
    by (cases "fold (bm25_read_step fs) files (?t0, 0)")
  have "read_inv ?t0 (?t0, 0)" by (simp add: read_inv_def BM25_init_def)
  then have ri: "read_inv ?t0 (t1, tot)" using read_loop_inv [of ?t0 "(?t0, 0)" fs files] f by simp
  let ?avg = "if bm25_documents t1 \<noteq> [] then real tot / real (length (bm25_documents t1)) else 0"
  let ?t2 = "t1\<lparr> avg_doc_length := ?avg \<rparr>"
  let ?T = "fold bm25_post_doc (bm25_documents ?t2) ?t2"
  have T: "bm25_index_documents fs files ?t0 = ?T"
    by (simp add: bm25_index_documents_def f Let_def)
  have np: "\<not> has_posting ?t2 tm d" for tm d
    using ri by (simp add: read_inv_def has_posting_def BM25_init_def)
  have dist: "distinct (map fst (bm25_documents t1))" using ri by (simp add: read_inv_def)
  have post: "has_posting ?T tm d \<longleftrightarrow>
      (\<exists>tokens. map_of (bm25_documents ?T) d = Some tokens \<and> tm \<in> set tokens)" for tm d
    using dist by (simp add: post_docs_posting np)
  have "df_bounded ?t2 0" using ri np by (simp add: df_bounded_def read_inv_def BM25_init_def)
  then have dfb: "df_bounded ?T (length (bm25_documents ?T))"
    using post_docs_df_bounded [of ?t2 0 "bm25_documents ?t2"] by simp
  have avg: "\<forall>(d, tokens) \<in> set (bm25_documents ?T). tokens \<noteq> [] \<longrightarrow> 0 < avg_doc_length ?T"
  proof (clarify)
    fix d tokens assume m: "(d, tokens) \<in> set (bm25_documents ?T)" and ne: "tokens \<noteq> []"
    then have m1: "(d, tokens) \<in> set (bm25_documents t1)" by simp
    then have "length tokens \<le> tot" using ri by (auto simp: read_inv_def)
    then have "0 < tot" using ne by (cases tokens) auto
    moreover have "bm25_documents t1 \<noteq> []" using m1 by auto
    ultimately show "0 < avg_doc_length ?T" by simp
  qed
  have "bm25_indexed ?T"
    unfolding bm25_indexed_def using dist ri post dfb avg
    by (simp add: read_inv_def)
  moreover have "bm25_k1 ?T = k1'" "bm25_b ?T = b'"
    using ri by (simp_all add: read_inv_def BM25_init_def)
  ultimately show ?thesis unfolding T by simp
qed

lemma term_score_total:
  assumes "bm25_indexed t" "0 < bm25_k1 t" "0 \<le> bm25_b t" "bm25_b t < 1" "has_posting t tm d"
  shows "\<exists>s. bm25_term_score t tm d = Inr s"
proof -
  obtain row where row: "map_of (term_frequencies t) tm = Some row" and "dict_has row d"
    using assms(5) by (auto simp: has_posting_def split: option.splits)
  then obtain tf where tf: "map_of row d = Some tf" by (auto simp: dict_has_def)
  have dfb: "df_bounded t (length (bm25_documents t))" using assms(1) by (simp add: bm25_indexed_def)
  obtain df where df: "map_of (document_frequencies t) tm = Some df"
    using dfb assms(5) by (auto simp: df_bounded_def)
  then have "df \<le> length (bm25_documents t)" using dfb by (auto simp: df_bounded_def)
  then have x: "0 < (real (length (bm25_documents t)) - real df + 0.5) / (real df + 0.5)"
    by (intro divide_pos_pos) simp_all
  obtain tokens where tk: "map_of (bm25_documents t) d = Some tokens" "tm \<in> set tokens"
    using assms(1,5) by (auto simp: bm25_indexed_def)
  then have mem: "(d, tokens) \<in> set (bm25_documents t)" by (auto dest: map_of_SomeD)
  then have "d \<in> fst ` set (bm25_documents t)" by (rule image_eqI [rotated]) simp
  moreover have "fst ` set (doc_lengths t) = fst ` set (bm25_documents t)"
    using assms(1) by (simp add: bm25_indexed_def)
  ultimately have "map_of (doc_lengths t) d \<noteq> None" by (simp add: map_of_eq_None_iff)
  then obtain dl where dl: "map_of (doc_lengths t) d = Some dl" by blast
  have "tokens \<noteq> []" using tk(2) by auto
  then have avg: "0 < avg_doc_length t" using assms(1) mem by (auto simp: bm25_indexed_def)
  have "0 \<le> bm25_b t * (real dl / avg_doc_length t)" using assms(3) avg by simp
  then have "0 < 1 - bm25_b t + bm25_b t * (real dl / avg_doc_length t)" using assms(4) by simp
  then have "0 < bm25_k1 t * (1 - bm25_b t + bm25_b t * (real dl / avg_doc_length t))"
    using assms(2) by simp
  then have den: "0 < real tf + bm25_k1 t * (1 - bm25_b t + bm25_b t * (real dl / avg_doc_length t))"
    by (simp add: add_nonneg_pos)
  show ?thesis
    using row tf df x dl avg den by (simp add: bm25_term_score_def Let_def)
qed

lemma score_loop_total:
  assumes "bm25_indexed t" "0 < bm25_k1 t" "0 \<le> bm25_b t" "bm25_b t < 1"
  shows "\<exists>s'. bm25_score_loop t d tms s = Inr s'"
proof (induction tms arbitrary: s)
  case Nil then show ?case by simp
next
  case (Cons tm tms)
  show ?case
  proof (cases "has_posting t tm d")
    case True
    then obtain x where "bm25_term_score t tm d = Inr x"
      using term_score_total [OF assms] by blast
    then show ?thesis using True Cons.IH by simp
  next
    case False then show ?thesis using Cons.IH by simp
  qed
qed

lemma doc_loop_total:
  assumes "bm25_indexed t" "0 < bm25_k1 t" "0 \<le> bm25_b t" "bm25_b t < 1"
  shows "\<exists>scores. bm25_doc_loop t q ds acc = Inr scores"
proof (induction ds arbitrary: acc)
  case Nil then show ?case by simp
next
  case (Cons d ds)
  obtain s where "bm25_score t d q = Inr s"
    using score_loop_total [OF assms] unfolding bm25_score_def by blast
  then show ?case using Cons.IH by simp
qed

lemma bm25_search_total:
  assumes "bm25_indexed t" "0 < bm25_k1 t" "0 \<le> bm25_b t" "bm25_b t < 1"
  shows "\<exists>rs. bm25_search t fs q top_k = Inr rs"
proof -
  obtain scores where "bm25_doc_loop t (tokenize q) (map fst (bm25_documents t)) [] = Inr scores"
    using doc_loop_total [OF assms] by blast
  then show ?thesis by (simp add: bm25_search_def Let_def)
qed




text \<open>A positive score needs a posting.\<close>

lemma positive_score_posting:
  assumes "bm25_score t d tms = Inr s" "0 < s"
  shows "\<exists>tm \<in> set tms. has_posting t tm d"
proof (rule ccontr)
  assume "\<not> (\<exists>tm \<in> set tms. has_posting t tm d)"
  then have "bm25_score t d tms = Inr 0" by (intro bm25_score_no_posting) simp
  then show False using assms by simp
qed

lemma read_step_docs:
  assumes "\<forall>(d, tokens) \<in> set (bm25_documents (fst st)). P d tokens"
      and "\<And>p c. fs p = Some c \<Longrightarrow> c \<noteq> [] \<Longrightarrow> P p (tokenize c)"
  shows "\<forall>(d, tokens) \<in> set (bm25_documents (fst (bm25_read_step fs p st))). P d tokens"
proof -
  obtain t tot where st: "st = (t, tot)" by (cases st)
  show ?thesis
  proof (cases "fs p")
    case None then show ?thesis using assms(1) by (simp add: st bm25_read_step_def)
  next
    case (Some c)
    show ?thesis
    proof (cases "c = []")
      case True then show ?thesis using assms(1) Some by (simp add: st bm25_read_step_def)
    next
      case False
      have "P p (tokenize c)" using Some False by (rule assms(2))
      then show ?thesis
        using assms(1) Some False set_dict_set_subset [of "bm25_documents t" p "tokenize c"]
        by (fastforce simp: st bm25_read_step_def Let_def)
    qed
  qed
qed

lemma read_loop_docs:
  assumes "\<forall>(d, tokens) \<in> set (bm25_documents (fst st)). P d tokens"
      and "\<And>p c. fs p = Some c \<Longrightarrow> c \<noteq> [] \<Longrightarrow> P p (tokenize c)"
  shows "\<forall>(d, tokens) \<in> set (bm25_documents (fst (fold (bm25_read_step fs) files st))). P d tokens"
  using assms(1)
proof (induction files arbitrary: st)
  case Nil then show ?case by simp
next
  case (Cons p files)
  have "\<forall>(d, tokens) \<in> set (bm25_documents (fst (bm25_read_step fs p st))). P d tokens"
    using Cons.prems assms(2) by (rule read_step_docs)
  from Cons.IH [OF this] show ?case by simp
qed

lemma indexed_documents_are_files:
  assumes "map_of (bm25_documents (bm25_index_documents fs files (BM25_init k1' b'))) d = Some tokens"
  shows "\<exists>c. fs d = Some c \<and> c \<noteq> [] \<and> tokens = tokenize c"
proof -
  let ?st = "fold (bm25_read_step fs) files (BM25_init k1' b', 0)"
  have "\<forall>(d, tokens) \<in> set (bm25_documents (fst ?st)). \<exists>c. fs d = Some c \<and> c \<noteq> [] \<and> tokens = tokenize c"
    by (rule read_loop_docs) (simp_all add: BM25_init_def)
  moreover have "bm25_documents (bm25_index_documents fs files (BM25_init k1' b')) = bm25_documents (fst ?st)"
    by (simp add: bm25_index_documents_def Let_def split: prod.splits)
  ultimately show ?thesis using assms by (auto dest!: map_of_SomeD)
qed

text \<open>
  C1 (as amended). On a freshly built index (\<open>k1 > 0\<close>, \<open>0 \<le> b < 1\<close>, which the
  defaults satisfy) the search raises no error. Every returned document was indexed from
  a file that shares a token with the query and has a strictly positive BM25 score, its
  relevance being \<open>min (score / 10) 1\<close>. A document that shares no token with the
  query scores exactly \<open>0\<close> and is not returned. Nothing is said of the sign of the
  score of a document that does contain a query term: it can be negative, and then the
  document is left out.
\<close>

theorem bm25_scores_and_exclusion:
  assumes "t = bm25_index_documents fs files (BM25_init k1' b')"
      and "0 < k1'" "0 \<le> b'" "b' < 1"
  shows "\<exists>rs. bm25_search t fs' q top_k = Inr rs
     \<and> (\<forall>r \<in> set rs. \<exists>c s. fs (source r) = Some c
            \<and> map_of (bm25_documents t) (source r) = Some (tokenize c)
            \<and> set (tokenize c) \<inter> set (tokenize q) \<noteq> {}
            \<and> bm25_score t (source r) (tokenize q) = Inr s \<and> 0 < s
            \<and> relevance_score r = min (s / 10) 1)
     \<and> (\<forall>d tokens. map_of (bm25_documents t) d = Some tokens
            \<and> set tokens \<inter> set (tokenize q) = {}
          \<longrightarrow> bm25_score t d (tokenize q) = Inr 0 \<and> d \<notin> source ` set rs)"
proof -
  have ix: "bm25_indexed t" and k: "0 < bm25_k1 t" "0 \<le> bm25_b t" "bm25_b t < 1"
    using bm25_index_indexed [of fs files k1' b'] assms by simp_all
  obtain rs where rs: "bm25_search t fs' q top_k = Inr rs"
    using bm25_search_total [OF ix k] by blast
  obtain scores n where sc: "bm25_doc_loop t (tokenize q) (map fst (bm25_documents t)) [] = Inr scores"
    and res: "rs = bm25_make_results t fs' q (tokenize q) (take n (sorted_desc snd scores))"
    using bm25_search_ranked [OF rs] by blast
  have post: "has_posting t tm d \<longleftrightarrow> (\<exists>tokens. map_of (bm25_documents t) d = Some tokens \<and> tm \<in> set tokens)"
    for tm d using ix by (simp add: bm25_indexed_def)
  have member: "\<exists>s. (source r, s) \<in> set scores \<and> relevance_score r = min (s / 10) 1" if "r \<in> set rs" for r
  proof -
    have "r \<in> set (bm25_make_results t fs' q (tokenize q) (take n (sorted_desc snd scores)))"
      using that res by simp
    from make_results_member [OF this]
    obtain d s c where ds: "(d, s) \<in> set (take n (sorted_desc snd scores))"
      and r: "r = bm25_result t q (tokenize q) d s c"
      by blast
    have "(d, s) \<in> set (sorted_desc snd scores)" using ds by (rule in_set_takeD)
    then have "(d, s) \<in> set scores" by simp
    then show ?thesis unfolding r by auto
  qed
  have pos: "bm25_score t d (tokenize q) = Inr s \<and> 0 < s" if "(d, s) \<in> set scores" for d s
    using doc_loop_scores [OF sc that] by simp
  have a: "\<forall>r \<in> set rs. \<exists>c s. fs (source r) = Some c
            \<and> map_of (bm25_documents t) (source r) = Some (tokenize c)
            \<and> set (tokenize c) \<inter> set (tokenize q) \<noteq> {}
            \<and> bm25_score t (source r) (tokenize q) = Inr s \<and> 0 < s
            \<and> relevance_score r = min (s / 10) 1"
  proof
    fix r assume "r \<in> set rs"
    then obtain s where s: "(source r, s) \<in> set scores" "relevance_score r = min (s / 10) 1"
      using member by blast
    have ps: "bm25_score t (source r) (tokenize q) = Inr s" "0 < s" using pos [OF s(1)] by simp_all
    then obtain tm where tm: "tm \<in> set (tokenize q)" "has_posting t tm (source r)"
      using positive_score_posting by blast
    then obtain tokens where tk: "map_of (bm25_documents t) (source r) = Some tokens" "tm \<in> set tokens"
      using post by blast
    obtain c where c: "fs (source r) = Some c" "tokens = tokenize c"
      using indexed_documents_are_files tk(1) unfolding assms(1) by blast
    have "set (tokenize c) \<inter> set (tokenize q) \<noteq> {}" using tm(1) tk(2) c(2) by auto
    then show "\<exists>c s. fs (source r) = Some c
            \<and> map_of (bm25_documents t) (source r) = Some (tokenize c)
            \<and> set (tokenize c) \<inter> set (tokenize q) \<noteq> {}
            \<and> bm25_score t (source r) (tokenize q) = Inr s \<and> 0 < s
            \<and> relevance_score r = min (s / 10) 1"
      using c tk(1) ps s(2) by blast
  qed
  have b: "\<forall>d tokens. map_of (bm25_documents t) d = Some tokens
            \<and> set tokens \<inter> set (tokenize q) = {}
          \<longrightarrow> bm25_score t d (tokenize q) = Inr 0 \<and> d \<notin> source ` set rs"
  proof (intro allI impI)
    fix d tokens
    assume h: "map_of (bm25_documents t) d = Some tokens \<and> set tokens \<inter> set (tokenize q) = {}"
    then have "\<forall>tm \<in> set (tokenize q). \<not> has_posting t tm d" using post by auto
    then have z: "bm25_score t d (tokenize q) = Inr 0" by (rule bm25_score_no_posting)
    have "d \<notin> source ` set rs"
    proof
      assume "d \<in> source ` set rs"
      then obtain r where "r \<in> set rs" "source r = d" by auto
      then obtain s where "(d, s) \<in> set scores" using member by blast
      then show False using pos z by fastforce
    qed
    then show "bm25_score t d (tokenize q) = Inr 0 \<and> d \<notin> source ` set rs" using z by simp
  qed
  show ?thesis using rs a b by blast
qed

section \<open>The example corpora, evaluated\<close>

lemmas tok_defs = tokenize_def split_def lower_def lower_char_def is_space_def is_alnum_def

lemma tok_a: "tokenize ''the quick fox'' = [''the'', ''quick'', ''fox'']" by (simp add: tok_defs)
lemma tok_b: "tokenize ''the quick dog'' = [''the'', ''quick'', ''dog'']" by (simp add: tok_defs)
lemma tok_c: "tokenize ''lazy cat sleeps'' = [''lazy'', ''cat'', ''sleeps'']" by (simp add: tok_defs)
lemma tok_q: "tokenize ''fox'' = [''fox'']" by (simp add: tok_defs)

lemma example_bm25_eq:
  "example_bm25 =
     \<lparr> bm25_k1 = 1.5, bm25_b = 0.75,
       bm25_documents = [(''a.txt'', [''the'', ''quick'', ''fox'']), (''b.txt'', [''the'', ''quick'', ''dog'']),
                         (''c.txt'', [''lazy'', ''cat'', ''sleeps''])],
       doc_lengths = [(''a.txt'', 3), (''b.txt'', 3), (''c.txt'', 3)],
       avg_doc_length = 3,
       term_frequencies = [(''the'', [(''a.txt'', 1), (''b.txt'', 1)]), (''quick'', [(''a.txt'', 1), (''b.txt'', 1)]),
                           (''fox'', [(''a.txt'', 1)]), (''dog'', [(''b.txt'', 1)]),
                           (''lazy'', [(''c.txt'', 1)]), (''cat'', [(''c.txt'', 1)]), (''sleeps'', [(''c.txt'', 1)])],
       document_frequencies = [(''the'', 2), (''quick'', 2), (''fox'', 1), (''dog'', 1), (''lazy'', 1), (''cat'', 1), (''sleeps'', 1)],
       bm25_vocabulary = {''the'', ''quick'', ''fox'', ''dog'', ''lazy'', ''cat'', ''sleeps''} \<rparr>"
  by (simp add: example_bm25_def bm25_index_documents_def example_files_def example_fs_def
      BM25_init_def bm25_read_step_def tok_a tok_b tok_c bm25_post_doc_def bm25_post_term_def
      Counter_def dict_has_def Let_def insert_commute)

lemma example_bm25_search:
  "bm25_search example_bm25 example_fs ''fox'' 10 = Inr [bm25_result example_bm25 ''fox'' [''fox''] ''a.txt'' (ln (5/3)) ''the quick fox'']"
  unfolding example_bm25_eq
  apply (simp add: bm25_search_def tok_q bm25_score_def has_posting_def dict_has_def bm25_term_score_def
      Let_def bm25_make_results_def py_take_def sorted_desc_def example_fs_def)
  done

lemma sqrt_sq_div9: "0 < x \<Longrightarrow> sqrt (x * x / 9) = x / 3"
  by (rule real_sqrt_unique) (simp_all add: power2_eq_square)

lemma sqrt_sq_div3: "0 < x \<Longrightarrow> sqrt (x * x / 3) = x / sqrt 3"
  unfolding real_sqrt_divide real_sqrt_abs2 by simp

lemma ln32_pos: "0 < ln (3 / 2 :: real)" by simp

lemma example_dense_index:
  "dense_index_documents example_fs None example_files 1000 Dense_init = Inr example_dense"
  by (simp add: dense_index_documents_def example_files_def example_fs_def Dense_init_def dense_read_step_def dict_has_def
      dense_add_document_def vocabulary_update_def tok_a tok_b tok_c List.union_def List.insert_def
      calculate_idf_scores_def word_doc_count_def Let_def generate_embeddings_def
      text_to_vector_def vocab_list_def less_eq_char_def less_char_def tfidf_weight_def Counter_def norm2_def
      example_dense_def sqrt_sq_div9 [OF ln32_pos] sqrt_sq_div3 [OF ln32_pos] real_div_sqrt)



lemma tok_quick: "tokenize ''quick'' = [''quick'']" by (simp add: tok_defs)
lemma tok_zebra: "tokenize ''zebra'' = [''zebra'']" by (simp add: tok_defs)

lemma scenario_bm25_eq:
  "scenario_bm25 =
     \<lparr> bm25_k1 = 1.5, bm25_b = 0.75,
       bm25_documents = [(''a.txt'', [''the'', ''quick'', ''fox'']), (''b.txt'', [''the'', ''quick'', ''dog''])],
       doc_lengths = [(''a.txt'', 3), (''b.txt'', 3)],
       avg_doc_length = 3,
       term_frequencies = [(''the'', [(''a.txt'', 1), (''b.txt'', 1)]), (''quick'', [(''a.txt'', 1), (''b.txt'', 1)]),
                           (''fox'', [(''a.txt'', 1)]), (''dog'', [(''b.txt'', 1)])],
       document_frequencies = [(''the'', 2), (''quick'', 2), (''fox'', 1), (''dog'', 1)],
       bm25_vocabulary = {''the'', ''quick'', ''fox'', ''dog''} \<rparr>"
  by (simp add: scenario_bm25_def bm25_index_documents_def scenario_fs_def
      BM25_init_def bm25_read_step_def tok_a tok_b bm25_post_doc_def bm25_post_term_def
      Counter_def dict_has_def Let_def insert_commute)

lemma scenario_fox_not_returned:
  "bm25_score scenario_bm25 ''a.txt'' (tokenize ''fox'') = Inr 0
   \<and> bm25_search scenario_bm25 scenario_fs ''fox'' 10 = Inr []"
  unfolding scenario_bm25_eq
  by (simp add: tok_q bm25_score_def has_posting_def dict_has_def bm25_term_score_def
      Let_def bm25_search_def bm25_make_results_def py_take_def sorted_desc_def)

text \<open>
  C1 fails as stated: with the corpus \<open>a.txt = "the quick fox"\<close>, \<open>b.txt = "the quick dog"\<close>
  and the query \<open>quick\<close>, the document \<open>a.txt\<close> contains the query term and its BM25
  score is \<open>ln (1/5) < 0\<close>; the search returns nothing.
\<close>

theorem negative_score_counterexample:
  "''quick'' \<in> set (tokenize ''the quick fox'') \<inter> set (tokenize ''quick'')
   \<and> map_of (bm25_documents scenario_bm25) ''a.txt'' = Some (tokenize ''the quick fox'')
   \<and> bm25_score scenario_bm25 ''a.txt'' (tokenize ''quick'') = Inr (ln (1 / 5))
   \<and> ln (1 / 5) < (0 :: real)
   \<and> bm25_search scenario_bm25 scenario_fs ''quick'' 10 = Inr []"
  unfolding scenario_bm25_eq
  by (simp add: tok_a tok_quick bm25_score_def has_posting_def dict_has_def bm25_term_score_def
      Let_def bm25_search_def bm25_make_results_def py_take_def sorted_desc_def)

theorem bm25_scores_and_exclusion_witness:
  "example_bm25 = bm25_index_documents example_fs example_files (BM25_init 1.5 0.75)
   \<and> (0 :: real) < 1.5 \<and> (0 :: real) \<le> 0.75 \<and> (0.75 :: real) < 1
   \<and> bm25_search example_bm25 example_fs ''fox'' 10
       = Inr [bm25_result example_bm25 ''fox'' [''fox''] ''a.txt'' (ln (5 / 3)) ''the quick fox'']
   \<and> bm25_score example_bm25 ''b.txt'' (tokenize ''fox'') = Inr 0"
proof -
  have h1: "example_bm25 = bm25_index_documents example_fs example_files (BM25_init 1.5 0.75)"
    by (simp add: example_bm25_def)
  have h2: "(0 :: real) < 1.5" and h3: "(0 :: real) \<le> 0.75" and h4: "(0.75 :: real) < 1"
    by simp_all
  have m: "map_of (bm25_documents example_bm25) ''b.txt'' = Some [''the'', ''quick'', ''dog'']
           \<and> set [''the'', ''quick'', ''dog''] \<inter> set (tokenize ''fox'') = {}"
    unfolding example_bm25_eq by (simp add: tok_q)
  have z: "bm25_score example_bm25 ''b.txt'' (tokenize ''fox'') = Inr 0"
    using bm25_scores_and_exclusion [OF h1 h2 h3 h4, of example_fs "''fox''" 10] m by blast
  show ?thesis
    by (intro conjI) (rule h1 h2 h3 h4 example_bm25_search z)+
qed

theorem oov_query_empty_witness:
  "dense_index_documents example_fs None example_files 1000 Dense_init = Inr example_dense
   \<and> embeddings example_dense \<noteq> []
   \<and> set (tokenize ''zebra'') \<inter> set (dense_vocabulary example_dense) = {}
   \<and> (0 :: real) < 0.1
   \<and> dense_search example_dense ''zebra'' 10 0.1 = Inr []"
  using oov_query_empty [OF example_dense_index, of "''zebra''" "0.1" 10]
  by (simp add: example_dense_index example_dense_def tok_zebra)

section \<open>BM25 ranking\<close>


lemma sorted_wrt_filter_take:
  "sorted_wrt P xs \<Longrightarrow> sorted_wrt P (filter Q (take n xs))"
  by (simp add: sorted_wrt_take sorted_wrt_filter)












section \<open>Hybrid retrieval\<close>

subsection \<open>Dense search raises no error on a built index\<close>




subsection \<open>The hybrid index\<close>




















section \<open>Chunking\<close>

lemma concat_windows:
  "concat (map (\<lambda>i. take k (drop i ws)) (map (\<lambda>j. j * k) [0 ..< m])) = take (m * k) ws"
proof (induction m)
  case 0 then show ?case by simp
next
  case (Suc m)
  have "take (m * k) ws @ take k (drop (m * k) ws) = take (m * k + k) ws"
    by (simp add: take_add)
  then show ?case using Suc by (simp add: add.commute)
qed

lemma ceil_div_covers:
  fixes n k :: nat
  assumes "0 < k"
  shows "n \<le> ((n + k - 1) div k) * k"
proof -
  have "n + k - 1 = ((n + k - 1) div k) * k + (n + k - 1) mod k" by simp
  moreover have "(n + k - 1) mod k \<le> k - 1" using assms by (simp add: less_Suc_eq_le [symmetric])
  ultimately show ?thesis using assms by linarith
qed

lemma chunk_words_partition:
  assumes "0 < chunk_size div 10" "chunk_words text chunk_size = Inr cws"
  shows "concat cws = split text"
proof -
  let ?k = "nat (chunk_size div 10)"
  let ?n = "length (split text)"
  have k: "0 < ?k" using assms(1) by simp
  have "cws = map (\<lambda>i. take ?k (drop i (split text))) (map (\<lambda>j. j * ?k) [0 ..< (?n + ?k - 1) div ?k])"
    using assms by (simp add: chunk_words_def range_from_0_def Let_def)
  then have "concat cws = take (((?n + ?k - 1) div ?k) * ?k) (split text)"
    by (simp only: concat_windows)
  then show ?thesis using ceil_div_covers [OF k, of ?n] by simp
qed

lemma split_example:
  "split ''alpha beta gamma delta epsilon'' = [''alpha'', ''beta'', ''gamma'', ''delta'', ''epsilon'']"
  by (simp add: split_def is_space_def)

text \<open>
  C9, at an input where the code departs from it. The loop of \<open>_split_into_chunks\<close> is
  commented \<open># Overlap chunks\<close>, but its step equals the length of its window, so the
  chunks are consecutive, disjoint runs of \<open>chunk_size // 10\<close> words (see
  \<open>chunk_words_partition\<close>): for a text of five distinct words and \<open>chunk_size = 20\<close>, which
  is longer than \<open>chunk_size\<close> and so is chunked by \<open>index_documents\<close>, no chunk shares a
  word with the one before it.
\<close>

theorem chunks_share_no_words:
  "chunk_words ''alpha beta gamma delta epsilon'' 20
     = Inr ([''alpha'', ''beta''] # [''gamma'', ''delta''] # [''epsilon''] # [])
   \<and> split_into_chunks ''alpha beta gamma delta epsilon'' 20
     = Inr [''alpha beta'', ''gamma delta'', ''epsilon'']
   \<and> set [''alpha'', ''beta''] \<inter> set [''gamma'', ''delta''] = {}
   \<and> set [''gamma'', ''delta''] \<inter> set [''epsilon''] = {}
   \<and> int (length ''alpha beta gamma delta epsilon'') > 20"
proof -
  have up: "[0 ..< 3] = [0, 1, 2]" by (simp add: upt_rec)
  have c: "chunk_words ''alpha beta gamma delta epsilon'' 20
     = Inr ([''alpha'', ''beta''] # [''gamma'', ''delta''] # [''epsilon''] # [])"
    by (simp add: chunk_words_def split_example range_from_0_def Let_def up)
  then show ?thesis by (simp add: split_into_chunks_def)
qed

lemma small_chunk_size_raises:
  "0 \<le> chunk_size \<Longrightarrow> chunk_size < 10 \<Longrightarrow> split_into_chunks text chunk_size = Inl ValueError"
  by (simp add: split_into_chunks_def chunk_words_def range_from_0_def Let_def)

lemma dict_set_new_key: "k \<notin> fst ` set d \<Longrightarrow> dict_set d k v = d @ [(k, v)]"
  by (induction d) (auto simp: image_iff)

lemma short_text_one_document:
  assumes "\<not> dict_has (dense_documents t) p" "fs p = Some c" "c \<noteq> []" "int (length c) \<le> chunk_size"
  shows "dense_read_step fs chunk_size p t = Inr (dense_add_document p c t)
         \<and> dense_documents (dense_add_document p c t) = dense_documents t @ [(p, c)]"
proof -
  have "p \<notin> fst ` set (dense_documents t)"
    using assms(1) by (simp add: dict_has_def map_of_eq_None_iff)
  then have "dict_set (dense_documents t) p c = dense_documents t @ [(p, c)]"
    by (rule dict_set_new_key)
  then show ?thesis using assms by (simp add: dense_read_step_def dense_add_document_def)
qed

section \<open>The research controller\<close>

lemma plan_strategies_length: "2 \<le> length (plan_strategies q) \<and> length (plan_strategies q) \<le> 8"
  by (simp add: plan_strategies_def Let_def)

lemma confidence_factors_eq:
  "all_results st \<noteq> [] \<Longrightarrow>
     confidence_score (SynthesisNode st)
       = (min (sum_list (map relevance_score (all_results st)) / real (length (all_results st)) * 2) 1
          + min (real (length (iterations st)) / 3) 1
          + min (real (card (set (map source (all_results st)))) / 10) 1) / 3"
  by (simp add: SynthesisNode_def confidence_factors_def Let_def)

lemma confidence_empty: "all_results st = [] \<Longrightarrow> confidence_score (SynthesisNode st) = 0.1"
  by (simp add: SynthesisNode_def confidence_factors_def)

lemma mean3_le:
  fixes x y z :: real
  assumes "x \<le> 1" "y \<le> 1" "z \<le> 1"
  shows "(x + y + z) / 3 \<le> 1"
  using assms by simp

lemma mean3_ge:
  fixes x y z :: real
  assumes "0 \<le> x" "1 / 3 \<le> y" "1 / 10 \<le> z"
  shows "0.1 \<le> (x + y + z) / 3"
  using assms by simp

lemma mean3_upper:
  fixes a b c :: real
  shows "(min a 1 + min b 1 + min c 1) / 3 \<le> 1"
  by (rule mean3_le) simp_all

lemma mean3_lower:
  fixes a b c :: real
  assumes "0 \<le> a" "1 / 3 \<le> b" "1 / 10 \<le> c"
  shows "0.1 \<le> (min a 1 + min b 1 + min c 1) / 3"
  by (rule mean3_ge) (use assms in simp_all)

lemma confidence_upper: "confidence_score (SynthesisNode st) \<le> 1"
proof (cases "all_results st = []")
  case True then show ?thesis by (simp add: confidence_empty)
next
  case False
  show ?thesis unfolding confidence_factors_eq [OF False] by (rule mean3_upper)
qed

lemma confidence_lower:
  assumes "all_results st \<noteq> []" "iterations st \<noteq> []" "\<forall>r \<in> set (all_results st). 0 \<le> relevance_score r"
  shows "0.1 \<le> confidence_score (SynthesisNode st)"
proof -
  have "0 \<le> sum_list (map relevance_score (all_results st))"
    using assms(3) by (intro sum_list_nonneg) auto
  then have "0 \<le> sum_list (map relevance_score (all_results st)) / real (length (all_results st))"
    by simp
  then have f1: "0 \<le> sum_list (map relevance_score (all_results st)) / real (length (all_results st)) * 2"
    by (rule mult_nonneg_nonneg) simp
  have "1 \<le> length (iterations st)" using assms(2) by (cases "iterations st") auto
  then have f2: "1 / 3 \<le> real (length (iterations st)) / 3" by simp
  have "set (map source (all_results st)) \<noteq> {}" using assms(1) by simp
  then have "1 \<le> card (set (map source (all_results st)))"
    by (simp add: Suc_le_eq card_gt_0_iff)
  then have f3: "1 / 10 \<le> real (card (set (map source (all_results st)))) / 10" by simp
  show ?thesis
    unfolding confidence_factors_eq [OF assms(1)] using f1 f2 f3 by (rule mean3_lower)
qed

lemma count_it_snoc [simp]: "count_it (tr @ [nd]) = count_it tr + (if nd = Iteration then 1 else 0)"
  by (simp add: count_it_def)

lemma count_it_Nil [simp]: "count_it [] = 0"
  by (simp add: count_it_def)

lemma inv_initial:
  "ctrl_inv env max_it Planning (create_initial_state ws max_it thr q goal) 0 []"
  by (simp add: ctrl_inv_def create_initial_state_def)

lemma inv_planning:
  assumes "ctrl_inv env max_it Planning st n tr"
  shows "ctrl_inv env max_it Search (PlanningNode env st) (n + 1) (tr @ [Planning])"
  using assms plan_strategies_length [of "original_query st"]
  by (auto simp: ctrl_inv_def PlanningNode_def Let_def)

lemma inv_search:
  assumes "ctrl_inv env max_it Search st n tr" "n + 1 \<le> 20"
  shows "ctrl_inv env max_it (if pending_searches (SearchNode env st) \<noteq> [] then Search else Analysis)
           (SearchNode env st) (n + 1) (tr @ [Search])"
proof -
  obtain strategy rest where p: "pending_searches st = strategy # rest"
    using assms(1) by (cases "pending_searches st") (auto simp: ctrl_inv_def)
  let ?q = "if current_query st \<noteq> [] then current_query st else original_query st"
  let ?results = "run_strategy env strategy ?q (discovered_files st)"
  have nn: "nonneg_env env \<longrightarrow> (\<forall>r \<in> set ?results. 0 \<le> relevance_score r)"
    by (auto simp: nonneg_env_def)
  show ?thesis
  proof (cases "rest = []")
    case True
    then show ?thesis using assms p nn
      by (auto simp: ctrl_inv_def SearchNode_def Let_def)
  next
    case False
    then show ?thesis using assms p nn
      by (auto simp: ctrl_inv_def SearchNode_def Let_def)
  qed
qed

lemma inv_analysis:
  assumes "ctrl_inv env max_it Analysis st n tr" "n + 1 \<le> 20"
  shows "ctrl_inv env max_it (if status (AnalysisNode env st) = ITERATING then Iteration else Synthesis)
           (AnalysisNode env st) (n + 1) (tr @ [Analysis])"
proof (cases "all_results st = []")
  case True
  then show ?thesis using assms by (simp add: ctrl_inv_def AnalysisNode_def)
next
  case False
  then show ?thesis using assms by (simp add: ctrl_inv_def AnalysisNode_def Let_def)
qed

lemma inv_iteration:
  assumes "ctrl_inv env max_it Iteration st n tr" "n + 1 \<le> 20"
  shows "ctrl_inv env max_it Search (IterationNode st) (n + 1) (tr @ [Iteration])"
proof -
  obtain next_query others where f: "follow_up_questions (last (iterations st)) = next_query # others"
    using assms(1) by (cases "follow_up_questions (last (iterations st))") (auto simp: ctrl_inv_def)
  show ?thesis using assms f by (auto simp: ctrl_inv_def IterationNode_def Let_def)
qed

lemma inv_synthesis:
  assumes "ctrl_inv env max_it Synthesis st n tr" "n + 1 \<le> 20"
  shows "ctrl_inv env max_it Report (SynthesisNode st) (n + 1) (tr @ [Synthesis])"
proof -
  have u: "confidence_score (SynthesisNode st) \<le> 1" by (rule confidence_upper)
  have l: "nonneg_env env \<longrightarrow> 0.1 \<le> confidence_score (SynthesisNode st)"
  proof (cases "all_results st = []")
    case True then show ?thesis by (simp add: confidence_empty)
  next
    case False
    then show ?thesis using assms(1) confidence_lower [of st] by (auto simp: ctrl_inv_def)
  qed
  have e: "all_results st = [] \<longrightarrow> confidence_score (SynthesisNode st) = 0.1"
    by (simp add: confidence_empty)
  have other: "all_results (SynthesisNode st) = all_results st" "status (SynthesisNode st) = COMPLETED"
    "max_iterations (SynthesisNode st) = max_iterations st"
    "current_iteration (SynthesisNode st) = current_iteration st"
    by (simp_all add: SynthesisNode_def Let_def)
  show ?thesis using assms u l e other by (auto simp: ctrl_inv_def)
qed

lemma inv_step:
  assumes "ctrl_inv env max_it nd st n tr" "n + 1 \<le> 20"
      and "next_node nd (exec_node env nd st) = Some nd'"
  shows "ctrl_inv env max_it nd' (exec_node env nd st) (n + 1) (tr @ [nd])"
proof (cases nd)
  case Planning
  then show ?thesis using assms inv_planning [of env max_it st n tr]
    by (simp add: exec_node_def next_node_def)
next
  case Search
  then show ?thesis using assms inv_search [of env max_it st n tr]
    by (auto simp: exec_node_def next_node_def search_condition_def split: if_splits)
next
  case Analysis
  then show ?thesis using assms inv_analysis [of env max_it st n tr]
    by (auto simp: exec_node_def next_node_def analysis_condition_def split: if_splits)
next
  case Iteration
  then show ?thesis using assms inv_iteration [of env max_it st n tr]
    by (simp add: exec_node_def next_node_def)
next
  case Synthesis
  then show ?thesis using assms inv_synthesis [of env max_it st n tr]
    by (simp add: exec_node_def next_node_def)
next
  case Report
  then show ?thesis using assms by (simp add: next_node_def)
qed

declare run_stream.simps [simp del]

lemma next_node_None: "next_node nd st = None \<longleftrightarrow> nd = Report"
  by (cases nd) (simp_all add: next_node_def)

lemma inv_final_report:
  assumes "ctrl_inv env max_it Report st n tr"
  shows "run_ok env max_it (ReportNode env st, n + 1, tr @ [Report])"
  using assms by (auto simp: ctrl_inv_def run_ok_def ReportNode_def)

lemma inv_final_ceiling:
  assumes "ctrl_inv env max_it nd st n tr" "\<not> n + 1 \<le> 20"
  shows "run_ok env max_it (exec_node env nd st, n + 1, tr @ [nd])"
proof -
  have n: "n = 20" using assms by (simp add: ctrl_inv_def)
  show ?thesis
  proof (cases nd)
    case Planning
    then show ?thesis using assms n by (simp add: ctrl_inv_def)
  next
    case Search
    obtain strategy rest where p: "pending_searches st = strategy # rest"
      using assms(1) Search by (cases "pending_searches st") (auto simp: ctrl_inv_def)
    show ?thesis using assms n Search p
      by (auto simp: ctrl_inv_def run_ok_def exec_node_def SearchNode_def Let_def)
  next
    case Analysis
    then have "all_results st \<noteq> []" using assms n by (auto simp: ctrl_inv_def)
    then show ?thesis using assms n Analysis
      by (auto simp: ctrl_inv_def run_ok_def exec_node_def AnalysisNode_def Let_def)
  next
    case Iteration
    obtain next_query others where f: "follow_up_questions (last (iterations st)) = next_query # others"
      using assms(1) Iteration by (cases "follow_up_questions (last (iterations st))") (auto simp: ctrl_inv_def)
    show ?thesis using assms n Iteration f
      by (auto simp: ctrl_inv_def run_ok_def exec_node_def IterationNode_def Let_def)
  next
    case Synthesis
    have ne: "all_results st \<noteq> []" "iterations st \<noteq> []"
      using assms n Synthesis by (auto simp: ctrl_inv_def)
    have u: "confidence_score (SynthesisNode st) \<le> 1" by (rule confidence_upper)
    have l: "nonneg_env env \<longrightarrow> 0.1 \<le> confidence_score (SynthesisNode st)"
      using assms(1) ne confidence_lower [of st] by (auto simp: ctrl_inv_def)
    have other: "all_results (SynthesisNode st) = all_results st" "status (SynthesisNode st) = COMPLETED"
      by (simp_all add: SynthesisNode_def Let_def)
    show ?thesis using assms n Synthesis ne u l other
      by (auto simp: ctrl_inv_def run_ok_def exec_node_def)
  next
    case Report
    then show ?thesis using assms inv_final_report [of env max_it st n tr]
      by (simp add: exec_node_def)
  qed
qed

lemma run_stream_ok:
  "ctrl_inv env max_it nd st n tr \<Longrightarrow> run_ok env max_it (run_stream env nd st n tr)"
proof (induction env nd st n tr rule: run_stream.induct)
  case (1 env nd st n tr)
  show ?case
  proof (cases "n + 1 \<le> 20")
    case False
    then have "run_stream env nd st n tr = (exec_node env nd st, n + 1, tr @ [nd])"
      by (subst run_stream.simps) (simp add: Let_def)
    then show ?thesis using inv_final_ceiling [OF "1.prems" False] by simp
  next
    case True
    show ?thesis
    proof (cases "next_node nd (exec_node env nd st)")
      case None
      then have r: "nd = Report" by (simp add: next_node_None)
      have "run_stream env nd st n tr = (exec_node env nd st, n + 1, tr @ [nd])"
        using True None by (subst run_stream.simps) (simp add: Let_def)
      then show ?thesis using inv_final_report [of env max_it st n tr] "1.prems" r
        by (simp add: exec_node_def)
    next
      case (Some nd')
      have e: "run_stream env nd st n tr = run_stream env nd' (exec_node env nd st) (n + 1) (tr @ [nd])"
        using True Some by (subst run_stream.simps) (simp add: Let_def)
      have "ctrl_inv env max_it nd' (exec_node env nd st) (n + 1) (tr @ [nd])"
        using "1.prems" True Some by (rule inv_step)
      then have "run_ok env max_it (run_stream env nd' (exec_node env nd st) (n + 1) (tr @ [nd]))"
        using "1.IH" [OF refl refl refl _ Some] True by simp
      then show ?thesis by (simp add: e)
    qed
  qed
qed

lemma run_research_ok:
  "run_ok env max_it (run_research env ws max_it thr q goal)"
  unfolding run_research_def by (rule run_stream_ok) (rule inv_initial)

lemmas node_defs = exec_node_def next_node_def search_condition_def analysis_condition_def
  PlanningNode_def SearchNode_def AnalysisNode_def IterationNode_def SynthesisNode_def ReportNode_def
  relevant_results_def confidence_factors_def Let_def

lemma plan_fox: "plan_strategies ''fox'' = [''grep_search'', ''fuzzy_search'']"
  by (simp add: plan_strategies_def Let_def lower_def lower_char_def split_def is_space_def)

lemma plan_long:
  "plan_strategies ''where does the fox sleep''
     = [''grep_search'', ''fuzzy_search'', ''dense_retrieval'', ''bm25_retrieval'', ''hybrid_retrieval'']"
  by (simp add: plan_strategies_def Let_def lower_def lower_char_def split_def is_space_def)

lemma empty_run:
  "status (fst (run_research empty_env ''ws'' 3 0.3 ''fox'' None)) = COMPLETED
   \<and> confidence_score (fst (run_research empty_env ''ws'' 3 0.3 ''fox'' None)) = 0.1
   \<and> all_results (fst (run_research empty_env ''ws'' 3 0.3 ''fox'' None)) = []
   \<and> fst (snd (run_research empty_env ''ws'' 3 0.3 ''fox'' None)) = 6"
  by (simp add: run_research_def create_initial_state_def run_stream.simps node_defs plan_fox empty_env_def)

lemma example_env_nonneg: "nonneg_env example_env"
  by (simp add: nonneg_env_def example_env_def example_result_def)

lemma empty_env_nonneg: "nonneg_env empty_env"
  by (simp add: nonneg_env_def empty_env_def)

lemma short_run:
  "status (fst (run_research example_env ''ws'' 1 0.3 ''fox'' None)) = COMPLETED
   \<and> fst (snd (run_research example_env ''ws'' 1 0.3 ''fox'' None)) = 10
   \<and> snd (snd (run_research example_env ''ws'' 1 0.3 ''fox'' None))
       = [Planning, Search, Search, Analysis, Iteration, Search, Search, Analysis, Synthesis, Report]"
  by (simp add: run_research_def create_initial_state_def run_stream.simps node_defs plan_fox
      example_env_def example_result_def)

lemma default_run:
  "fst (snd (run_research example_env ''ws'' 3 0.3 ''where does the fox sleep'' None)) = 21
   \<and> status (fst (run_research example_env ''ws'' 3 0.3 ''where does the fox sleep'' None)) = SEARCHING
   \<and> confidence_score (fst (run_research example_env ''ws'' 3 0.3 ''where does the fox sleep'' None)) = 0
"
  by (simp add: run_research_def create_initial_state_def run_stream.simps node_defs plan_long
      example_env_def example_result_def)

text \<open>
  C2 (as amended). The driver of \<open>run_research\<close> is a total function: its recursion
  descends on \<open>21 - step_count\<close>. Every run executes at most 21 nodes; the iteration node
  runs at most \<open>max_iterations\<close> times (never, for a negative bound), hence at most
  \<open>max_iterations + 20\<close> times; a run that ends before the 21st step ended at the report
  node with status \<open>COMPLETED\<close>. Nothing is claimed of the status of a run cut at the
  ceiling: the loop returns the state as the last node left it.
\<close>

theorem research_run_bounded:
  "fst (snd (run_research env ws max_it thr q goal))
     = length (snd (snd (run_research env ws max_it thr q goal)))
   \<and> fst (snd (run_research env ws max_it thr q goal)) \<le> 21
   \<and> int (count_it (snd (snd (run_research env ws max_it thr q goal)))) \<le> max 0 max_it
   \<and> (0 \<le> max_it \<longrightarrow>
         int (count_it (snd (snd (run_research env ws max_it thr q goal)))) \<le> max_it + 20)
   \<and> (fst (snd (run_research env ws max_it thr q goal)) < 21 \<longrightarrow>
         status (fst (run_research env ws max_it thr q goal)) = COMPLETED
         \<and> last (snd (snd (run_research env ws max_it thr q goal))) = Report)"
  using run_research_ok [of env max_it ws thr q goal]
  by (auto simp: run_ok_def split: prod.splits)

theorem research_run_bounded_witness:
  "(0 :: int) \<le> 1
   \<and> fst (snd (run_research example_env ''ws'' 1 0.3 ''fox'' None)) < 21
   \<and> status (fst (run_research example_env ''ws'' 1 0.3 ''fox'' None)) = COMPLETED
   \<and> last (snd (snd (run_research example_env ''ws'' 1 0.3 ''fox'' None))) = Report
   \<and> int (count_it (snd (snd (run_research example_env ''ws'' 1 0.3 ''fox'' None)))) \<le> 1 + 20"
proof -
  have s: "fst (snd (run_research example_env ''ws'' 1 0.3 ''fox'' None)) < 21"
    using short_run by simp
  note b = research_run_bounded [of example_env "''ws''" 1 "0.3" "''fox''" None]
  have c: "status (fst (run_research example_env ''ws'' 1 0.3 ''fox'' None)) = COMPLETED"
    and l: "last (snd (snd (run_research example_env ''ws'' 1 0.3 ''fox'' None))) = Report"
    using b s by blast+
  have i: "int (count_it (snd (snd (run_research example_env ''ws'' 1 0.3 ''fox'' None)))) \<le> 1 + 20"
    using b by simp
  show ?thesis using s c l i by simp
qed

text \<open>
  C2 fails as stated: with the default configuration (\<open>max_iterations = 3\<close>, threshold
  \<open>0.3\<close>), a five-word query, a grep strategy that finds one result and an analyzer that
  always proposes a follow-up, the loop is left at the 21st step in the middle of a
  search round with status \<open>SEARCHING\<close> and the initial confidence \<open>0\<close>: the run is not
  marked complete.
\<close>

theorem ceiling_not_completed_counterexample:
  "fst (snd (run_research example_env ''ws'' 3 0.3 ''where does the fox sleep'' None)) = 21
   \<and> status (fst (run_research example_env ''ws'' 3 0.3 ''where does the fox sleep'' None)) = SEARCHING
   \<and> status (fst (run_research example_env ''ws'' 3 0.3 ''where does the fox sleep'' None)) \<noteq> COMPLETED
   \<and> confidence_score (fst (run_research example_env ''ws'' 3 0.3 ''where does the fox sleep'' None)) = 0"
  using default_run by simp

text \<open>
  C3. When no search strategy returns a negative relevance (the tools of the repository
  return scores in \<open>[0, 1]\<close>), every run that ends with status \<open>COMPLETED\<close> has its
  confidence in \<open>[0.1, 1]\<close>; and a run that accumulated no result at all ends with status
  \<open>COMPLETED\<close> and confidence exactly \<open>0.1\<close>.
\<close>

theorem confidence_range:
  assumes "nonneg_env env"
  shows "(status (fst (run_research env ws max_it thr q goal)) = COMPLETED \<longrightarrow>
            0.1 \<le> confidence_score (fst (run_research env ws max_it thr q goal))
            \<and> confidence_score (fst (run_research env ws max_it thr q goal)) \<le> 1)
       \<and> (all_results (fst (run_research env ws max_it thr q goal)) = [] \<longrightarrow>
            status (fst (run_research env ws max_it thr q goal)) = COMPLETED
            \<and> confidence_score (fst (run_research env ws max_it thr q goal)) = 0.1)"
  using run_research_ok [of env max_it ws thr q goal] assms
  by (auto simp: run_ok_def split: prod.splits)

theorem confidence_range_witness:
  "nonneg_env example_env
   \<and> status (fst (run_research example_env ''ws'' 1 0.3 ''fox'' None)) = COMPLETED
   \<and> 0.1 \<le> confidence_score (fst (run_research example_env ''ws'' 1 0.3 ''fox'' None))
   \<and> confidence_score (fst (run_research example_env ''ws'' 1 0.3 ''fox'' None)) \<le> 1
   \<and> nonneg_env empty_env
   \<and> all_results (fst (run_research empty_env ''ws'' 3 0.3 ''fox'' None)) = []
   \<and> status (fst (run_research empty_env ''ws'' 3 0.3 ''fox'' None)) = COMPLETED
   \<and> confidence_score (fst (run_research empty_env ''ws'' 3 0.3 ''fox'' None)) = 0.1"
proof -
  have c: "status (fst (run_research example_env ''ws'' 1 0.3 ''fox'' None)) = COMPLETED"
    using short_run by simp
  have r: "0.1 \<le> confidence_score (fst (run_research example_env ''ws'' 1 0.3 ''fox'' None))
        \<and> confidence_score (fst (run_research example_env ''ws'' 1 0.3 ''fox'' None)) \<le> 1"
    using confidence_range [OF example_env_nonneg, of "''ws''" 1 "0.3" "''fox''" None] c by blast
  have e: "all_results (fst (run_research empty_env ''ws'' 3 0.3 ''fox'' None)) = []"
    using empty_run by simp
  have z: "status (fst (run_research empty_env ''ws'' 3 0.3 ''fox'' None)) = COMPLETED
        \<and> confidence_score (fst (run_research empty_env ''ws'' 3 0.3 ''fox'' None)) = 0.1"
    using confidence_range [OF empty_env_nonneg, of "''ws''" 3 "0.3" "''fox''" None] e by blast
  show ?thesis using example_env_nonneg empty_env_nonneg c r e z by blast
qed

end
